theory Spec2Isabelle
  imports Main
begin

section \<open>Host values\<close>

text \<open>
  JavaScript strings are modelled as \<^typ>\<open>string\<close>; the clock (\<^verbatim>\<open>Date.now()\<close>) counts
  milliseconds as a natural number. \<open>decimal\<close> is the rendering of a number inside a
  template literal.
\<close>

fun decimal :: "nat \<Rightarrow> string" where
  "decimal n =
     (if n < 10 then [char_of (48 + n)]
      else decimal (n div 10) @ [char_of (48 + n mod 10)])"

declare decimal.simps [simp del]

text \<open>The line feed.\<close>

definition NL :: string where
  "NL = [CHR 0x0A]"

section \<open>The event bus (services/streamingService.ts)\<close>

datatype event_type = Thinking | Output | FunctionCall | ErrorEvent | SystemEvent | AgentStatus

record StreamEvent =
  ev_id :: string
  ev_type :: event_type
  content :: string
  timestamp :: nat
  agentId :: "string option"
  taskId :: "string option"
  metadata :: "(string \<times> string) list option"

text \<open>The argument of \<open>emit\<close>: a \<open>StreamEvent\<close> without \<open>id\<close> and \<open>timestamp\<close>.\<close>

record EventInput =
  in_type :: event_type
  in_content :: string
  in_agentId :: "string option"
  in_taskId :: "string option"
  in_metadata :: "(string \<times> string) list option"

text \<open>
  Arrays and event objects are mutable and shared, so both live in a store: an array is a
  list of references to event objects, and the service holds the address of its history
  array. A reference that has not been allocated reads as a blank event. A listener is a
  function object, identified by a number; what a call of it does to the bus is fixed by
  a parameter \<open>throws\<close> (does this listener throw on this event). The field
  \<open>delivered\<close> is a ghost log of the listener calls made.
\<close>

type_synonym addr = nat
type_synonym ref = nat
type_synonym listener = nat

record StreamingService =
  listeners :: "listener list"
  events :: addr
  arrays :: "addr \<Rightarrow> ref list"
  objects :: "ref \<Rightarrow> StreamEvent"
  next_addr :: addr
  next_ref :: ref
  delivered :: "(listener \<times> StreamEvent) list"

definition maxEvents :: nat where
  "maxEvents = 100"

definition blank_event :: StreamEvent where
  "blank_event =
     \<lparr>ev_id = [], ev_type = SystemEvent, content = [], timestamp = 0, agentId = None,
      taskId = None, metadata = None\<rparr>"

definition new_StreamingService :: StreamingService where
  "new_StreamingService =
     \<lparr>listeners = [], events = 0, arrays = (\<lambda>_. []), objects = (\<lambda>_. blank_event),
      next_addr = 1, next_ref = 0, delivered = []\<rparr>"

text \<open>\<open>Set.add\<close> keeps insertion order and ignores a listener that is already a member.\<close>

definition subscribe :: "StreamingService \<Rightarrow> listener \<Rightarrow> StreamingService" where
  "subscribe s l = (if l \<in> set (listeners s) then s else s\<lparr>listeners := listeners s @ [l]\<rparr>)"

definition unsubscribe :: "StreamingService \<Rightarrow> listener \<Rightarrow> StreamingService" where
  "unsubscribe s l = s\<lparr>listeners := removeAll l (listeners s)\<rparr>"

text \<open>\<open>xs.slice(-n)\<close> for \<open>n > 0\<close>: the last \<open>n\<close> elements, in a new array.\<close>

definition slice_last :: "nat \<Rightarrow> 'a list \<Rightarrow> 'a list" where
  "slice_last n xs = drop (length xs - n) xs"

definition mk_event :: "nat \<Rightarrow> string \<Rightarrow> EventInput \<Rightarrow> StreamEvent" where
  "mk_event now rnd e =
     \<lparr>ev_id = decimal now @ ''_'' @ rnd, ev_type = in_type e, content = in_content e,
      timestamp = now, agentId = in_agentId e, taskId = in_taskId e,
      metadata = in_metadata e\<rparr>"

text \<open>
  \<open>listeners.forEach(listener => listener(streamEvent))\<close>: the listeners are called in
  insertion order; an exception thrown by one of them leaves \<open>forEach\<close> at once. The
  result is \<open>True\<close> when an exception escaped.
\<close>

fun forEach_listeners ::
  "(listener \<Rightarrow> StreamEvent \<Rightarrow> bool) \<Rightarrow> listener list \<Rightarrow> StreamEvent \<Rightarrow>
   (listener \<times> StreamEvent) list \<Rightarrow> bool \<times> (listener \<times> StreamEvent) list" where
  "forEach_listeners throws [] ev log = (False, log)"
| "forEach_listeners throws (l # ls) ev log =
     (if throws l ev then (True, log @ [(l, ev)])
      else forEach_listeners throws ls ev (log @ [(l, ev)]))"

text \<open>
  The reference of a newly created object. A new object is none of the objects that
  exist, so its reference is the counter, kept above every reference in the history
  array; on a service built from a new one the counter is above them by itself and
  \<open>new_ref\<close> is \<open>next_ref\<close>.
\<close>

definition new_ref :: "StreamingService \<Rightarrow> ref" where
  "new_ref s = fold (\<lambda>r m. max (Suc r) m) (arrays s (events s)) (next_ref s)"

text \<open>
  \<open>emit\<close>: \<open>now\<close> and \<open>rnd\<close> are what \<open>Date.now()\<close> and the random suffix give at
  the call. The object literal creates the event object; \<open>push\<close> puts its reference
  into the history array in place; \<open>slice\<close> allocates a new array of the same
  references.
\<close>

definition push_event :: "StreamingService \<Rightarrow> StreamEvent \<Rightarrow> StreamingService" where
  "push_event s ev =
     s\<lparr>objects := (objects s)(new_ref s := ev),
       next_ref := Suc (new_ref s),
       arrays := (arrays s)(events s := arrays s (events s) @ [new_ref s])\<rparr>"

definition truncate_events :: "StreamingService \<Rightarrow> StreamingService" where
  "truncate_events s =
     (if length (arrays s (events s)) > maxEvents
      then s\<lparr>arrays := (arrays s)(next_addr s := slice_last maxEvents (arrays s (events s))),
             events := next_addr s, next_addr := Suc (next_addr s)\<rparr>
      else s)"

definition emit ::
  "(listener \<Rightarrow> StreamEvent \<Rightarrow> bool) \<Rightarrow> nat \<Rightarrow> string \<Rightarrow> StreamingService \<Rightarrow> EventInput \<Rightarrow>
   bool \<times> StreamingService" where
  "emit throws now rnd s e =
     (let streamEvent = mk_event now rnd e;
          s1 = truncate_events (push_event s streamEvent);
          (threw, log) = forEach_listeners throws (listeners s1) streamEvent (delivered s1)
      in (threw, s1\<lparr>delivered := log\<rparr>))"

text \<open>
  \<open>getEvents\<close> returns the address of a fresh array holding the same references
  (\<open>[...this.events]\<close> copies the array, not the objects in it).
\<close>

definition getEvents :: "StreamingService \<Rightarrow> addr \<times> StreamingService" where
  "getEvents s =
     (next_addr s,
      s\<lparr>arrays := (arrays s)(next_addr s := arrays s (events s)),
        next_addr := Suc (next_addr s)\<rparr>)"

definition clearEvents :: "StreamingService \<Rightarrow> StreamingService" where
  "clearEvents s =
     s\<lparr>arrays := (arrays s)(next_addr s := []), events := next_addr s,
       next_addr := Suc (next_addr s)\<rparr>"

text \<open>
  What a caller can do with what it holds. \<open>array_write\<close>: any change to an array
  (elements added, removed or replaced), after which the array at \<open>a\<close> has new
  contents. \<open>object_write\<close>: an assignment to fields of an event object, after which
  the object at \<open>r\<close> has the field values \<open>f\<close> makes of its old ones.
\<close>

definition array_write :: "StreamingService \<Rightarrow> addr \<Rightarrow> ref list \<Rightarrow> StreamingService" where
  "array_write s a xs = s\<lparr>arrays := (arrays s)(a := xs)\<rparr>"

definition object_write ::
  "StreamingService \<Rightarrow> ref \<Rightarrow> (StreamEvent \<Rightarrow> StreamEvent) \<Rightarrow> StreamingService" where
  "object_write s r f = s\<lparr>objects := (objects s)(r := f (objects s r))\<rparr>"

definition set_content :: "string \<Rightarrow> StreamEvent \<Rightarrow> StreamEvent" where
  "set_content c ev = ev\<lparr>content := c\<rparr>"

text \<open>
  A sequence of publishes: each is its own call of \<open>emit\<close>, with its own clock reading
  and random suffix; an exception of one call does not undo what that call had stored.
\<close>

fun emit_all ::
  "(listener \<Rightarrow> StreamEvent \<Rightarrow> bool) \<Rightarrow> StreamingService \<Rightarrow> (nat \<times> string \<times> EventInput) list \<Rightarrow>
   StreamingService" where
  "emit_all throws s [] = s"
| "emit_all throws s ((now, rnd, e) # es) = emit_all throws (snd (emit throws now rnd s e)) es"

text \<open>
  The events of an array as a reader sees them now, the history of the service among
  them; \<open>getEvents_refs\<close> and \<open>getEvents_result\<close> are the array that \<open>getEvents\<close>
  returns, as references and as events.
\<close>

definition array_events :: "StreamingService \<Rightarrow> addr \<Rightarrow> StreamEvent list" where
  "array_events s a = map (objects s) (arrays s a)"

definition history :: "StreamingService \<Rightarrow> StreamEvent list" where
  "history s = array_events s (events s)"

definition published :: "(nat \<times> string \<times> EventInput) list \<Rightarrow> StreamEvent list" where
  "published es = map (\<lambda>(now, rnd, e). mk_event now rnd e) es"

definition getEvents_refs :: "StreamingService \<Rightarrow> ref list" where
  "getEvents_refs s = arrays (snd (getEvents s)) (fst (getEvents s))"

definition getEvents_result :: "StreamingService \<Rightarrow> StreamEvent list" where
  "getEvents_result s = array_events (snd (getEvents s)) (fst (getEvents s))"

text \<open>
  The store of a service built from a new one: the history array is below the next
  array address, and the references it holds are below the next object reference.
\<close>

definition addr_ok :: "StreamingService \<Rightarrow> bool" where
  "addr_ok s =
     (events s < next_addr s \<and> list_all (\<lambda>r. r < next_ref s) (arrays s (events s)))"

section \<open>JSON values and the JavaScript operations applied to them\<close>

text \<open>
  What \<open>JSON.parse\<close> returns. A number is kept as its JavaScript rendering (the text
  that \<open>String(n)\<close> gives, \<open>0\<close> for both zeros), which is all the decoder can
  observe of it; an object is the list of its members in source order.
\<close>

datatype json =
    JNull
  | JBool bool
  | JNumber string
  | JString string
  | JArray "json list"
  | JObject "(string \<times> json) list"

datatype jsval = Undefined | Val json

text \<open>A later member of an object replaces an earlier one with the same name.\<close>

definition obj_get :: "(string \<times> json) list \<Rightarrow> string \<Rightarrow> jsval" where
  "obj_get kvs k = (case map_of (rev kvs) k of None \<Rightarrow> Undefined | Some v \<Rightarrow> Val v)"

text \<open>
  \<open>v.name\<close> for a name that is neither an index nor a built-in property (here
  \<open>choices\<close>, \<open>delta\<close>, \<open>content\<close>). \<open>None\<close> is the TypeError of reading a property
  of \<open>null\<close>.
\<close>

fun get_named :: "json \<Rightarrow> string \<Rightarrow> jsval option" where
  "get_named JNull k = None"
| "get_named (JObject kvs) k = Some (obj_get kvs k)"
| "get_named v k = Some Undefined"

text \<open>\<open>v[0]\<close>: an array element, the first character of a string, or the member \<open>"0"\<close>.\<close>

fun get_index0 :: "json \<Rightarrow> jsval option" where
  "get_index0 JNull = None"
| "get_index0 (JArray xs) = Some (case xs of [] \<Rightarrow> Undefined | x # _ \<Rightarrow> Val x)"
| "get_index0 (JString cs) = Some (case cs of [] \<Rightarrow> Undefined | c # _ \<Rightarrow> Val (JString [c]))"
| "get_index0 (JObject kvs) = Some (obj_get kvs ''0'')"
| "get_index0 v = Some Undefined"

text \<open>The optional chaining \<open>x?.name\<close>: \<open>undefined\<close> when \<open>x\<close> is \<open>undefined\<close> or \<open>null\<close>.\<close>

fun optional_named :: "jsval \<Rightarrow> string \<Rightarrow> jsval" where
  "optional_named Undefined k = Undefined"
| "optional_named (Val JNull) k = Undefined"
| "optional_named (Val v) k = (case get_named v k of None \<Rightarrow> Undefined | Some r \<Rightarrow> r)"

text \<open>
  \<open>json.choices[0]?.delta?.content\<close>. \<open>None\<close>: a TypeError (\<open>json\<close> is \<open>null\<close>, or
  \<open>json.choices\<close> is \<open>undefined\<close> or \<open>null\<close>).
\<close>

definition delta_content :: "json \<Rightarrow> jsval option" where
  "delta_content j =
     (case get_named j ''choices'' of
        None \<Rightarrow> None
      | Some Undefined \<Rightarrow> None
      | Some (Val c) \<Rightarrow>
          (case get_index0 c of
             None \<Rightarrow> None
           | Some x \<Rightarrow> Some (optional_named (optional_named x ''delta'') ''content'')))"

fun js_truthy :: "jsval \<Rightarrow> bool" where
  "js_truthy Undefined = False"
| "js_truthy (Val JNull) = False"
| "js_truthy (Val (JBool b)) = b"
| "js_truthy (Val (JNumber r)) = (r \<noteq> ''0'')"
| "js_truthy (Val (JString cs)) = (cs \<noteq> [])"
| "js_truthy (Val (JArray xs)) = True"
| "js_truthy (Val (JObject kvs)) = True"

text \<open>
  The coercion of \<open>text += v\<close>. An array is joined with commas, \<open>null\<close> elements giving
  the empty text; an object gives \<open>[object Object]\<close>, unless it has a member
  \<open>toString\<close>, which hides the inherited method and is not callable: then the coercion
  throws (\<open>None\<close>).
\<close>

fun js_to_string :: "json \<Rightarrow> string option"
  and js_join :: "json list \<Rightarrow> string option" where
  "js_to_string JNull = Some ''null''"
| "js_to_string (JBool b) = Some (if b then ''true'' else ''false'')"
| "js_to_string (JNumber r) = Some r"
| "js_to_string (JString cs) = Some cs"
| "js_to_string (JArray xs) = js_join xs"
| "js_to_string (JObject kvs) =
     (if ''toString'' \<in> set (map fst kvs) then None else Some ''[object Object]'')"
| "js_join [] = Some []"
| "js_join (x # xs) =
     (case (if x = JNull then Some [] else js_to_string x) of
        None \<Rightarrow> None
      | Some a \<Rightarrow>
          (if xs = [] then Some a
           else (case js_join xs of None \<Rightarrow> None | Some b \<Rightarrow> Some (a @ '','' @ b))))"

section \<open>A parser for JSON texts\<close>

text \<open>
  The decoder takes \<open>JSON.parse\<close> as a parameter, so its general properties hold for
  the host's own parser. \<open>JSON_parse\<close> is a parser for the JSON grammar (ECMA-404) used
  where a concrete text has to be evaluated; \<open>None\<close> is the SyntaxError. Two limits of
  the text model show in it: an escaped code unit above \<open>00FF\<close> has no counterpart among
  8-bit code units and gives no value, and a number keeps its source text as its
  rendering, which is JavaScript's only for an integer of at most 15 digits written
  without fraction and exponent.
\<close>

definition is_json_ws :: "char \<Rightarrow> bool" where
  "is_json_ws c = (of_char c \<in> {32::nat, 9, 10, 13})"

definition skip_ws :: "string \<Rightarrow> string" where
  "skip_ws cs = dropWhile is_json_ws cs"

definition is_digit :: "char \<Rightarrow> bool" where
  "is_digit c = (48 \<le> (of_char c :: nat) \<and> (of_char c :: nat) \<le> 57)"

definition hex_digit :: "char \<Rightarrow> nat option" where
  "hex_digit c =
     (let n = (of_char c :: nat)
      in if 48 \<le> n \<and> n \<le> 57 then Some (n - 48)
         else if 65 \<le> n \<and> n \<le> 70 then Some (n - 55)
         else if 97 \<le> n \<and> n \<le> 102 then Some (n - 87)
         else None)"

definition hex4 :: "char \<Rightarrow> char \<Rightarrow> char \<Rightarrow> char \<Rightarrow> nat option" where
  "hex4 a b c d =
     (case (hex_digit a, hex_digit b, hex_digit c, hex_digit d) of
        (Some w, Some x, Some y, Some z) \<Rightarrow> Some (((w * 16 + x) * 16 + y) * 16 + z)
      | _ \<Rightarrow> None)"

definition unescape :: "char \<Rightarrow> char option" where
  "unescape e =
     (if e = CHR 0x22 then Some (CHR 0x22)
      else if e = CHR 0x5C then Some (CHR 0x5C)
      else if e = CHR ''/'' then Some (CHR ''/'')
      else if e = CHR ''b'' then Some (CHR 0x08)
      else if e = CHR ''f'' then Some (CHR 0x0C)
      else if e = CHR ''n'' then Some (CHR 0x0A)
      else if e = CHR ''r'' then Some (CHR 0x0D)
      else if e = CHR ''t'' then Some (CHR 0x09)
      else None)"

definition cons_char :: "char \<Rightarrow> (string \<times> string) option \<Rightarrow> (string \<times> string) option" where
  "cons_char c r = (case r of None \<Rightarrow> None | Some (cs, rest) \<Rightarrow> Some (c # cs, rest))"

text \<open>The characters of a string after its opening quote, and the text after its closing quote.\<close>

fun parse_chars :: "string \<Rightarrow> (string \<times> string) option" where
  "parse_chars [] = None"
| "parse_chars [c] = (if c = CHR 0x22 then Some ([], []) else None)"
| "parse_chars (c # e # cs) =
     (if c = CHR 0x22 then Some ([], e # cs)
      else if c = CHR 0x5C then
        (if e = CHR ''u'' then
           (case cs of
              h1 # h2 # h3 # h4 # cs' \<Rightarrow>
                (case hex4 h1 h2 h3 h4 of
                   None \<Rightarrow> None
                 | Some v \<Rightarrow> (if v < 256 then cons_char (char_of v) (parse_chars cs') else None))
            | _ \<Rightarrow> None)
         else (case unescape e of None \<Rightarrow> None | Some x \<Rightarrow> cons_char x (parse_chars cs)))
      else if (of_char c :: nat) < 32 then None
      else cons_char c (parse_chars (e # cs)))"

definition take_digits :: "string \<Rightarrow> (string \<times> string) option" where
  "take_digits cs =
     (if takeWhile is_digit cs = [] then None
      else Some (takeWhile is_digit cs, dropWhile is_digit cs))"

text \<open>\<open>-? (0 | [1-9][0-9]*) (. [0-9]+)? ([eE] [+-]? [0-9]+)?\<close>\<close>

definition parse_number :: "string \<Rightarrow> (json \<times> string) option" where
  "parse_number cs =
     (let neg = (take 1 cs = ''-'');
          cs1 = (if neg then drop 1 cs else cs);
          sign = (if neg then ''-'' else [])
      in case take_digits cs1 of
           None \<Rightarrow> None
         | Some (ds, r) \<Rightarrow>
             (let ip = (if take 1 ds = ''0'' then ''0'' else ds);
                  r1 = (if take 1 ds = ''0'' then drop 1 ds @ r else r);
                  fr = (if take 1 r1 = ''.'' then
                          (case take_digits (drop 1 r1) of
                             None \<Rightarrow> None
                           | Some (fs, r2) \<Rightarrow> Some (''.'' @ fs, r2))
                        else Some ([], r1))
              in case fr of
                   None \<Rightarrow> None
                 | Some (ft, r2) \<Rightarrow>
                     (let ex = (if take 1 r2 = ''e'' \<or> take 1 r2 = ''E'' then
                                  (let r3 = drop 1 r2;
                                       sg = (if take 1 r3 = ''+'' \<or> take 1 r3 = ''-''
                                             then take 1 r3 else []);
                                       r4 = drop (length sg) r3
                                   in case take_digits r4 of
                                        None \<Rightarrow> None
                                      | Some (es, r5) \<Rightarrow> Some (take 1 r2 @ sg @ es, r5))
                                else Some ([], r2))
                      in case ex of
                           None \<Rightarrow> None
                         | Some (et, r5) \<Rightarrow>
                             Some (JNumber (if ft = [] \<and> et = [] \<and> ip = ''0'' then ''0''
                                            else sign @ ip @ ft @ et), r5))))"

text \<open>
  The first argument bounds the number of nested calls; \<open>JSON_parse\<close> starts with more
  than any text of that length can use.
\<close>

fun parse_value :: "nat \<Rightarrow> string \<Rightarrow> (json \<times> string) option"
  and parse_elements :: "nat \<Rightarrow> string \<Rightarrow> (json list \<times> string) option"
  and parse_members :: "nat \<Rightarrow> string \<Rightarrow> ((string \<times> json) list \<times> string) option" where
  "parse_value 0 cs = None"
| "parse_value (Suc n) cs =
     (case skip_ws cs of
        [] \<Rightarrow> None
      | c # r \<Rightarrow>
          (if c = CHR 0x22 then
             (case parse_chars r of None \<Rightarrow> None | Some (str, r') \<Rightarrow> Some (JString str, r'))
           else if c = CHR ''['' then
             (if take 1 (skip_ws r) = '']'' then Some (JArray [], drop 1 (skip_ws r))
              else (case parse_elements n r of
                      None \<Rightarrow> None
                    | Some (vs, r') \<Rightarrow> Some (JArray vs, r')))
           else if c = CHR ''{'' then
             (if take 1 (skip_ws r) = ''}'' then Some (JObject [], drop 1 (skip_ws r))
              else (case parse_members n r of
                      None \<Rightarrow> None
                    | Some (kvs, r') \<Rightarrow> Some (JObject kvs, r')))
           else if take 4 (c # r) = ''true'' then Some (JBool True, drop 4 (c # r))
           else if take 5 (c # r) = ''false'' then Some (JBool False, drop 5 (c # r))
           else if take 4 (c # r) = ''null'' then Some (JNull, drop 4 (c # r))
           else parse_number (c # r)))"
| "parse_elements 0 cs = None"
| "parse_elements (Suc n) cs =
     (case parse_value n cs of
        None \<Rightarrow> None
      | Some (v, r) \<Rightarrow>
          (if take 1 (skip_ws r) = '','' then
             (case parse_elements n (drop 1 (skip_ws r)) of
                None \<Rightarrow> None
              | Some (vs, r') \<Rightarrow> Some (v # vs, r'))
           else if take 1 (skip_ws r) = '']'' then Some ([v], drop 1 (skip_ws r))
           else None))"
| "parse_members 0 cs = None"
| "parse_members (Suc n) cs =
     (if take 1 (skip_ws cs) = [CHR 0x22] then
        (case parse_chars (drop 1 (skip_ws cs)) of
           None \<Rightarrow> None
         | Some (k, r) \<Rightarrow>
             (if take 1 (skip_ws r) = '':'' then
                (case parse_value n (drop 1 (skip_ws r)) of
                   None \<Rightarrow> None
                 | Some (v, r1) \<Rightarrow>
                     (if take 1 (skip_ws r1) = '','' then
                        (case parse_members n (drop 1 (skip_ws r1)) of
                           None \<Rightarrow> None
                         | Some (kvs, r2) \<Rightarrow> Some ((k, v) # kvs, r2))
                      else if take 1 (skip_ws r1) = ''}'' then
                        Some ([(k, v)], drop 1 (skip_ws r1))
                      else None))
              else None))
      else None)"

definition JSON_parse :: "string \<Rightarrow> json option" where
  "JSON_parse cs =
     (case parse_value (2 * length cs + 2) cs of
        None \<Rightarrow> None
      | Some (v, r) \<Rightarrow> (if skip_ws r = [] then Some v else None))"

section \<open>The stream decoder (pages/Tasks.tsx, processStreamResponse)\<close>

text \<open>\<open>s.split('\n')\<close>: the pieces between the newlines; never an empty array.\<close>

fun split_on :: "char \<Rightarrow> string \<Rightarrow> string list" where
  "split_on c [] = [[]]"
| "split_on c (x # xs) =
     (if x = c then [] # split_on c xs
      else (case split_on c xs of [] \<Rightarrow> [[x]] | piece # ps \<Rightarrow> (x # piece) # ps))"

text \<open>
  White space and line terminators as \<open>trim\<close> removes them, for code units below 256:
  tab, line feed, vertical tab, form feed, carriage return, space, no-break space.
\<close>

definition is_js_space :: "char \<Rightarrow> bool" where
  "is_js_space c = (of_char c \<in> {9::nat, 10, 11, 12, 13, 32, 160})"

definition js_trim :: "string \<Rightarrow> string" where
  "js_trim cs = rev (dropWhile is_js_space (rev (dropWhile is_js_space cs)))"

definition startsWith :: "string \<Rightarrow> string \<Rightarrow> bool" where
  "startsWith cs p = (take (length p) cs = p)"

text \<open>\<open>chunk.split('\n').filter(line => line.trim())\<close>\<close>

definition chunk_lines :: "string \<Rightarrow> string list" where
  "chunk_lines chunk = filter (\<lambda>line. js_trim line \<noteq> []) (split_on CHR 0x0A chunk)"

text \<open>
  The calls made to the two optional callbacks, in order. A callback is given by what a
  call of it does: \<open>True\<close> when the call throws.
\<close>

datatype callback = OnThinking "string option" | OnChunk string

record decoder =
  fullContent :: string
  firstChunk :: bool
  calls :: "callback list"

datatype flow = Return decoder | Continue decoder

text \<open>
  \<open>fullContent += content; onChunk?.(fullContent)\<close>. The call of \<open>onChunk\<close> is the
  last statement inside the \<open>try\<close>, so it makes no difference whether it throws.
\<close>

definition append_content :: "(string \<Rightarrow> bool) option \<Rightarrow> decoder \<Rightarrow> jsval \<Rightarrow> flow" where
  "append_content onChunk d cont =
     (case (case cont of Undefined \<Rightarrow> Some ''undefined'' | Val j \<Rightarrow> js_to_string j) of
        None \<Rightarrow> Continue d
      | Some txt \<Rightarrow>
          (let d1 = d\<lparr>fullContent := fullContent d @ txt\<rparr>
           in case onChunk of
                None \<Rightarrow> Continue d1
              | Some chunk \<Rightarrow> Continue (d1\<lparr>calls := calls d1 @ [OnChunk (fullContent d1)]\<rparr>)))"

text \<open>
  The body of \<open>for (const line of lines)\<close>. \<open>P\<close> is \<open>JSON.parse\<close> (\<open>None\<close> when it
  throws). Everything after the parse is inside the same \<open>try\<close>, so any exception
  (the parse, a property read, a callback, the coercion) ends the work on the line with
  the changes made so far and the loop goes on.
\<close>

definition handle_line ::
  "(string \<Rightarrow> json option) \<Rightarrow> (string \<Rightarrow> bool) option \<Rightarrow> (string option \<Rightarrow> bool) option \<Rightarrow>
   decoder \<Rightarrow> string \<Rightarrow> flow" where
  "handle_line P onChunk onThinking d line =
     (if line = ''data: [DONE]'' then Return d
      else if startsWith line ''data: '' then
        (case P (drop 6 line) of
           None \<Rightarrow> Continue d
         | Some j \<Rightarrow>
             (case delta_content j of
                None \<Rightarrow> Continue d
              | Some v \<Rightarrow>
                  (let cont = (if js_truthy v then v else Val (JString []))
                   in if js_truthy cont then
                        (case (if firstChunk d then onThinking else None) of
                           Some thinking \<Rightarrow>
                             (if thinking None
                              then Continue (d\<lparr>calls := calls d @ [OnThinking None]\<rparr>)
                              else append_content onChunk
                                     (d\<lparr>calls := calls d @ [OnThinking None],
                                        firstChunk := False\<rparr>) cont)
                         | None \<Rightarrow> append_content onChunk d cont)
                      else Continue d)))
      else Continue d)"

fun for_lines ::
  "(string \<Rightarrow> json option) \<Rightarrow> (string \<Rightarrow> bool) option \<Rightarrow> (string option \<Rightarrow> bool) option \<Rightarrow>
   decoder \<Rightarrow> string list \<Rightarrow> flow" where
  "for_lines P onChunk onThinking d [] = Continue d"
| "for_lines P onChunk onThinking d (line # ls) =
     (case handle_line P onChunk onThinking d line of
        Return d' \<Rightarrow> Return d'
      | Continue d' \<Rightarrow> for_lines P onChunk onThinking d' ls)"

text \<open>
  The response body as the reader delivers it: the decoded text of each read, then
  either the end of the stream or a read that fails.
\<close>

datatype stream_end = Done | ReadFails string

record body =
  chunks :: "string list"
  ending :: stream_end

datatype error =
    KeyRequired
  | InvalidKeyFormat
  | RateLimitExceeded
  | InvalidApiKey
  | ApiUnavailable
  | ApiError string
  | FetchFailed string
  | NoResponseBody
  | ReadFailed string
  | CallbackThrew
  | ParentNotCompleted string

text \<open>
  The \<open>while (true)\<close> loop. The result is what the function returns or throws, the
  final decoder state and the reads that were never made.
\<close>

fun read_loop ::
  "(string \<Rightarrow> json option) \<Rightarrow> (string \<Rightarrow> bool) option \<Rightarrow> (string option \<Rightarrow> bool) option \<Rightarrow>
   stream_end \<Rightarrow> decoder \<Rightarrow> string list \<Rightarrow> (error + string) \<times> decoder \<times> string list" where
  "read_loop P onChunk onThinking e d [] =
     (case e of Done \<Rightarrow> (Inr (fullContent d), d, [])
      | ReadFails m \<Rightarrow> (Inl (ReadFailed m), d, []))"
| "read_loop P onChunk onThinking e d (chunk # cs) =
     (case for_lines P onChunk onThinking d (chunk_lines chunk) of
        Return d' \<Rightarrow> (Inr (fullContent d'), d', cs)
      | Continue d' \<Rightarrow> read_loop P onChunk onThinking e d' cs)"

text \<open>\<open>let fullContent = ""; let firstChunk = true\<close>\<close>

definition decoder0 :: decoder where
  "decoder0 = \<lparr>fullContent = [], firstChunk = True, calls = []\<rparr>"

record decoded =
  returned :: "error + string"
  called :: "callback list"
  unread :: "string list"

definition processStreamResponse ::
  "(string \<Rightarrow> json option) \<Rightarrow> body option \<Rightarrow> (string \<Rightarrow> bool) option \<Rightarrow>
   (string option \<Rightarrow> bool) option \<Rightarrow> decoded" where
  "processStreamResponse P response_body onChunk onThinking =
     (case response_body of
        None \<Rightarrow> \<lparr>returned = Inl NoResponseBody, called = [], unread = []\<rparr>
      | Some b \<Rightarrow>
          (case read_loop P onChunk onThinking (ending b) decoder0 (chunks b) of
             (r, d, rest) \<Rightarrow> \<lparr>returned = r, called = calls d, unread = rest\<rparr>))"

section \<open>The inference client (pages/Tasks.tsx, GroqAPIClient)\<close>

record message =
  msg_role :: string
  msg_content :: string

text \<open>
  The arguments of one call of \<open>inference\<close>. \<open>req_id\<close> is not in the source: it names
  the promise that the call returns, so that the logs below can refer to it.
\<close>

record request =
  req_id :: nat
  apiKey :: string
  req_model :: string
  req_messages :: "message list"
  jsonMode :: bool
  onChunk :: "(string \<Rightarrow> bool) option"
  onThinking :: "(string option \<Rightarrow> bool) option"

text \<open>
  What \<open>fetch\<close> gives: a rejection, or a response. \<open>provider_message\<close> is
  \<open>errorData.error?.message\<close> of the response's JSON when that can be read and is not
  empty.
\<close>

record response =
  resp_ok :: bool
  http_status :: nat
  statusText :: string
  provider_message :: "string option"
  response_body :: "body option"

datatype fetch_result = Rejects string | Responds response

text \<open>
  The host of the client: the JSON parser, the network's answer to a request, the time
  the awaited work of a dispatched request takes, and by how much a timer set at a given
  time fires late.
\<close>

record host =
  parse :: "string \<Rightarrow> json option"
  net :: "request \<Rightarrow> fetch_result"
  latency :: "request \<Rightarrow> nat"
  timer_late :: "nat \<Rightarrow> nat"

definition validateApiKey :: "string \<Rightarrow> error + unit" where
  "validateApiKey key =
     (if js_trim key = [] then Inl KeyRequired
      else if \<not> startsWith key ''gsk_'' \<or> length key < 40 then Inl InvalidKeyFormat
      else Inr ())"

definition handleApiError :: "response \<Rightarrow> error" where
  "handleApiError r =
     (if http_status r = 429 then RateLimitExceeded
      else if http_status r = 401 then InvalidApiKey
      else if http_status r \<ge> 500 then ApiUnavailable
      else ApiError (case provider_message r of
                       Some m \<Rightarrow> m
                     | None \<Rightarrow> ''HTTP '' @ decimal (http_status r) @ '': '' @ statusText r))"

definition makeRequest :: "host \<Rightarrow> request \<Rightarrow> error + response" where
  "makeRequest h r =
     (case net h r of
        Rejects m \<Rightarrow> Inl (FetchFailed m)
      | Responds resp \<Rightarrow> (if \<not> resp_ok resp then Inl (handleApiError resp) else Inr resp))"

text \<open>
  \<open>if (onThinking) onThinking(msg)\<close> outside any \<open>try\<close>: \<open>True\<close> when the callback
  throws, which ends \<open>executeRequest\<close>.
\<close>

definition status_call :: "request \<Rightarrow> string \<Rightarrow> bool" where
  "status_call r msg = (case onThinking r of None \<Rightarrow> False | Some f \<Rightarrow> f (Some msg))"

definition status_log :: "request \<Rightarrow> string \<Rightarrow> callback list" where
  "status_log r msg = (case onThinking r of None \<Rightarrow> [] | Some f \<Rightarrow> [OnThinking (Some msg)])"

text \<open>
  \<open>executeRequest\<close>: the result or the error thrown, the callback calls made, and
  whether \<open>fetch\<close> was called.
\<close>

record executed =
  outcome :: "error + string"
  callbacks :: "callback list"
  fetch_called :: bool

definition executeRequest :: "host \<Rightarrow> request \<Rightarrow> executed" where
  "executeRequest h r =
     (case validateApiKey (apiKey r) of
        Inl e \<Rightarrow> \<lparr>outcome = Inl e, callbacks = [], fetch_called = False\<rparr>
      | Inr _ \<Rightarrow>
          (let c1 = status_log r ''Connecting to Groq API...''
           in if status_call r ''Connecting to Groq API...''
              then \<lparr>outcome = Inl CallbackThrew, callbacks = c1, fetch_called = False\<rparr>
              else
                (let c2 = c1 @ status_log r ''Sending request to AI agent...''
                 in if status_call r ''Sending request to AI agent...''
                    then \<lparr>outcome = Inl CallbackThrew, callbacks = c2, fetch_called = False\<rparr>
                    else
                      (case makeRequest h r of
                         Inl e \<Rightarrow> \<lparr>outcome = Inl e, callbacks = c2, fetch_called = True\<rparr>
                       | Inr resp \<Rightarrow>
                           (let c3 = c2 @ status_log r ''Agent is thinking...''
                            in if status_call r ''Agent is thinking...''
                               then \<lparr>outcome = Inl CallbackThrew, callbacks = c3,
                                     fetch_called = True\<rparr>
                               else
                                 (let d = processStreamResponse (parse h) (response_body resp)
                                            (onChunk r) (onThinking r)
                                  in \<lparr>outcome = returned d, callbacks = c3 @ called d,
                                       fetch_called = True\<rparr>))))))"

text \<open>
  The part of \<open>executeRequest\<close> that runs at the call, up to its first \<open>await\<close> (the
  one of \<open>fetch\<close>): the error when it throws before, the callback calls made, and
  whether \<open>fetch\<close> has been called.
\<close>

definition executeRequest_begin :: "request \<Rightarrow> error option \<times> callback list \<times> bool" where
  "executeRequest_begin r =
     (case validateApiKey (apiKey r) of
        Inl e \<Rightarrow> (Some e, [], False)
      | Inr _ \<Rightarrow>
          (let c1 = status_log r ''Connecting to Groq API...''
           in if status_call r ''Connecting to Groq API...''
              then (Some CallbackThrew, c1, False)
              else
                (let c2 = c1 @ status_log r ''Sending request to AI agent...''
                 in if status_call r ''Sending request to AI agent...''
                    then (Some CallbackThrew, c2, False)
                    else (None, c2, True))))"

text \<open>
  The client. The queue holds the closures pushed by \<open>inference\<close>, each given by the
  arguments of its call. The last three fields are logs that the source does not keep:
  the requests for which \<open>fetch\<close> was called, the promises settled, and each dispatch
  with the times at which it began and completed.
\<close>

record GroqAPIClient =
  requestQueue :: "request list"
  isProcessing :: bool
  lastRequestTime :: nat
  fetched :: "nat list"
  settled :: "(nat \<times> (error + string)) list"
  dispatched :: "(nat \<times> nat \<times> nat) list"

definition RATE_LIMIT_DELAY :: nat where
  "RATE_LIMIT_DELAY = 100"

definition new_GroqAPIClient :: GroqAPIClient where
  "new_GroqAPIClient =
     \<lparr>requestQueue = [], isProcessing = False, lastRequestTime = 0, fetched = [],
      settled = [], dispatched = []\<rparr>"

text \<open>
  The part of \<open>processQueue\<close> before its loop: \<open>True\<close> when the call goes on into the
  loop, having set the flag.
\<close>

definition processQueue_enter :: "GroqAPIClient \<Rightarrow> GroqAPIClient \<times> bool" where
  "processQueue_enter c =
     (if isProcessing c \<or> requestQueue c = [] then (c, False)
      else (c\<lparr>isProcessing := True\<rparr>, True))"

text \<open>
  \<open>inference\<close> as far as the head of the loop of \<open>processQueue\<close>: the closure is
  pushed and \<open>processQueue\<close> is entered. \<open>run\<close> below goes on from the loop head.
\<close>

definition inference_enter :: "GroqAPIClient \<Rightarrow> request \<Rightarrow> GroqAPIClient \<times> bool" where
  "inference_enter c r = processQueue_enter (c\<lparr>requestQueue := requestQueue c @ [r]\<rparr>)"

text \<open>
  Where \<open>processQueue\<close> stands when a call of \<open>inference\<close> returns: it returned at
  once because a loop is running, it waits for the rate-limit timer (for so many
  milliseconds), it has shifted a closure and awaits it, or its loop has ended.
\<close>

datatype suspension = NoLoop | AtTimer nat | InUnit request | LoopEnded

text \<open>
  The loop of \<open>processQueue\<close> from its head to its first \<open>await\<close>, at time \<open>now\<close>.
  When no wait is due the head of the queue is shifted and called within the same
  call: its \<open>executeRequest\<close> runs up to its own first \<open>await\<close>, so \<open>fetch\<close> has been
  called by then unless the request failed before. The \<open>reject\<close> of a closure whose
  request has failed runs later, when the call stack is empty.
\<close>

definition processQueue_begin :: "nat \<Rightarrow> GroqAPIClient \<Rightarrow> suspension \<times> GroqAPIClient" where
  "processQueue_begin now c =
     (case requestQueue c of
        [] \<Rightarrow> (LoopEnded, c\<lparr>isProcessing := False\<rparr>)
      | request # queue \<Rightarrow>
          (let timeSinceLastRequest = int now - int (lastRequestTime c)
           in if timeSinceLastRequest < int RATE_LIMIT_DELAY
              then (AtTimer (nat (int RATE_LIMIT_DELAY - timeSinceLastRequest)), c)
              else (InUnit request,
                    c\<lparr>requestQueue := queue,
                      fetched := fetched c @
                        (if snd (snd (executeRequest_begin request)) then [req_id request]
                         else [])\<rparr>)))"

text \<open>
  \<open>inference\<close> at time \<open>now\<close>, up to its return: the push, \<open>processQueue\<close> and, when
  that call enters the loop, the loop up to its first \<open>await\<close>.
\<close>

definition inference :: "nat \<Rightarrow> GroqAPIClient \<Rightarrow> request \<Rightarrow> suspension \<times> GroqAPIClient" where
  "inference now c r =
     (case inference_enter c r of
        (c1, True) \<Rightarrow> processQueue_begin now c1
      | (c1, False) \<Rightarrow> (NoLoop, c1))"

text \<open>
  A queued closure when it is called: \<open>executeRequest\<close> inside \<open>try\<close>, then
  \<open>resolve\<close> or \<open>reject\<close>. How a call of a queue element ends is \<open>Normal\<close> or
  \<open>Throws\<close>; the time it takes is that of the network work when \<open>fetch\<close> was called.
\<close>

datatype completion = Normal | Throws

definition run_unit ::
  "host \<Rightarrow> GroqAPIClient \<Rightarrow> request \<Rightarrow> completion \<times> GroqAPIClient \<times> nat" where
  "run_unit h c r =
     (let x = executeRequest h r
      in (Normal,
          c\<lparr>fetched := fetched c @ (if fetch_called x then [req_id r] else []),
            settled := settled c @ [(req_id r, outcome x)]\<rparr>,
          if fetch_called x then latency h r else 0))"

text \<open>
  The calls of \<open>inference\<close> that arrive while the loop is suspended in an \<open>await\<close>,
  up to a given time. Submissions are listed in the order of the calls, each with its
  time.
\<close>

definition due :: "nat \<Rightarrow> (nat \<times> request) list \<Rightarrow> request list" where
  "due t subs = map snd (takeWhile (\<lambda>s. fst s \<le> t) subs)"

definition later :: "nat \<Rightarrow> (nat \<times> request) list \<Rightarrow> (nat \<times> request) list" where
  "later t subs = dropWhile (\<lambda>s. fst s \<le> t) subs"

definition deliver :: "GroqAPIClient \<Rightarrow> request list \<Rightarrow> GroqAPIClient" where
  "deliver c rs = fold (\<lambda>r c'. fst (inference_enter c' r)) rs c"

text \<open>
  The delay before a dispatch at time \<open>now\<close>: nothing when at least
  \<open>RATE_LIMIT_DELAY\<close> has passed since \<open>lastRequestTime\<close>, otherwise the remainder
  and the lateness of the timer.
\<close>

definition dispatch_time :: "host \<Rightarrow> nat \<Rightarrow> GroqAPIClient \<Rightarrow> nat" where
  "dispatch_time h now c =
     (let timeSinceLastRequest = int now - int (lastRequestTime c)
      in if timeSinceLastRequest < int RATE_LIMIT_DELAY
         then now + nat (int RATE_LIMIT_DELAY - timeSinceLastRequest) + timer_late h now
         else now)"

text \<open>
  The client over time, from \<open>now\<close> on, with the submissions still to come: the result
  is the time and the state when nothing is left to happen. With the flag set, the
  function is at the head of the \<open>while\<close> loop of \<open>processQueue\<close>: an empty queue ends
  the loop and clears the flag; otherwise the loop waits as \<open>dispatch_time\<close> says,
  shifts the queue and awaits the closure, and then sets \<open>lastRequestTime\<close>. Were the
  closure to throw, \<open>processQueue\<close> would end there with the flag still set, and every
  later submission would only be pushed. With the flag clear, the next submission is
  the next thing that happens.
\<close>

function run ::
  "host \<Rightarrow> nat \<Rightarrow> GroqAPIClient \<Rightarrow> (nat \<times> request) list \<Rightarrow> nat \<times> GroqAPIClient" where
  "run h now c subs =
     (if isProcessing c then
        (if requestQueue c = [] then run h now (c\<lparr>isProcessing := False\<rparr>) subs
         else
           (let start = dispatch_time h now c;
                c1 = deliver c (due start subs)
            in case requestQueue c1 of
                 [] \<Rightarrow> run h start c1 (later start subs)
               | request # queue \<Rightarrow>
                   (case run_unit h (c1\<lparr>requestQueue := queue\<rparr>) request of
                      (Throws, c3, elapsed) \<Rightarrow>
                        (start + elapsed, deliver c3 (map snd (later start subs)))
                    | (Normal, c3, elapsed) \<Rightarrow>
                        (let finish = start + elapsed;
                             c4 = deliver c3 (due finish (later start subs));
                             c5 = c4\<lparr>lastRequestTime := finish,
                                     dispatched :=
                                       dispatched c4 @ [(req_id request, start, finish)]\<rparr>
                         in run h finish c5 (later finish (later start subs))))))
      else
        (case subs of
           [] \<Rightarrow> (now, c)
         | (t, r) # subs' \<Rightarrow> run h (max now t) (fst (inference_enter c r)) subs'))"
  by pat_completeness auto


termination
proof (relation "measure (\<lambda>(h, now, c, subs).
          4 * length subs + 2 * length (requestQueue c) + (if isProcessing c then 1 else 0))",
       goal_cases)
  case 1
  show ?case by simp
next
  case (2 h now c subs)
  then show ?case by simp
next
  case (3 h now c subs start c1)
  have len: "length (requestQueue (deliver c' rs)) = length (requestQueue c') + length rs"
    for c' rs
    unfolding deliver_def
    by (induction rs arbitrary: c') (simp_all add: inference_enter_def processQueue_enter_def)
  from 3 len [of c "due start subs"] show ?case
    by (cases "requestQueue c") simp_all
next
  case (4 h now c subs start c1 request queue x y c3 elapsed finish c4 c5)
  have len: "length (requestQueue (deliver c' rs)) = length (requestQueue c') + length rs"
    for c' rs
    unfolding deliver_def
    by (induction rs arbitrary: c') (simp_all add: inference_enter_def processQueue_enter_def)
  have split: "length (due t ss) + length (later t ss) = length ss" for t ss
    unfolding due_def later_def
    by (induction ss) simp_all
  have q3: "requestQueue c3 = queue"
    using 4 by (auto simp: run_unit_def Let_def)
  have q1: "Suc (length queue) = length (requestQueue c) + length (due start subs)"
    using 4 len [of c "due start subs"] by simp
  have q5: "length (requestQueue c5) = length queue + length (due finish (later start subs))"
    using 4 q3 len [of c3 "due finish (later start subs)"] by simp
  from q1 q5 split [of start subs] split [of finish "later start subs"] show ?case
    by simp
next
  case (5 h now c subs x subs' t r)
  then show ?case
    by (simp add: inference_enter_def processQueue_enter_def)
qed

declare run.simps [simp del]

text \<open>
  A dispatch log in which every dispatch begins at least \<open>RATE_LIMIT_DELAY\<close> after
  the completion before it (\<open>t\<close> for the first) and completes no earlier than it began.
\<close>

fun spaced :: "nat \<Rightarrow> (nat \<times> nat \<times> nat) list \<Rightarrow> bool" where
  "spaced t [] = True"
| "spaced t ((i, s, f) # ds) = (t + RATE_LIMIT_DELAY \<le> s \<and> s \<le> f \<and> spaced f ds)"

text \<open>
  The state in which \<open>run\<close> ends when every unit completes normally: what is known of
  the client at the start, the requests \<open>rs\<close> still to be dispatched, and the log
  \<open>ds\<close> of their dispatches.
\<close>

definition final_state ::
  "host \<Rightarrow> GroqAPIClient \<Rightarrow> request list \<Rightarrow> (nat \<times> nat \<times> nat) list \<Rightarrow> GroqAPIClient" where
  "final_state h c rs ds =
     c\<lparr>requestQueue := [], isProcessing := False,
       lastRequestTime := (if ds = [] then lastRequestTime c else snd (snd (last ds))),
       fetched := fetched c @ map req_id (filter (\<lambda>r. fetch_called (executeRequest h r)) rs),
       settled := settled c @ map (\<lambda>r. (req_id r, outcome (executeRequest h r))) rs,
       dispatched := dispatched c @ ds\<rparr>"

text \<open>What can be compared of a client: the ids in its queue, its flag and its logs.\<close>

definition summary ::
  "GroqAPIClient \<Rightarrow>
   nat list \<times> bool \<times> nat list \<times> (nat \<times> (error + string)) list \<times> (nat \<times> nat \<times> nat) list" where
  "summary c =
     (map req_id (requestQueue c), isProcessing c, fetched c, settled c, dispatched c)"

section \<open>The CRUD store (api/base44Client.ts)\<close>

text \<open>
  \<open>created_date\<close> is an ISO date string that the store only ever turns back into the
  instant it was made from (\<open>new Date(s).getTime()\<close>); it is kept as that instant.
\<close>

record Agent =
  agent_id :: string
  agent_name :: string
  agent_role :: string
  system_prompt :: string
  agent_model :: string
  agent_created :: "nat option"

datatype task_status = Todo | InProgress | TaskDone | TaskFailed

datatype output_format = TextFormat | JsonObject

record Task =
  task_id :: string
  title :: string
  description :: string
  status :: task_status
  result :: "string option"
  task_agent_id :: string
  parent_task_id :: "string option"
  task_output_format :: "output_format option"
  task_created :: "nat option"

text \<open>
  A \<open>Map\<close> keeps its keys in insertion order; \<open>set\<close> on a key that is present
  replaces the value in place.
\<close>

fun map_set :: "(string \<times> 'a) list \<Rightarrow> string \<Rightarrow> 'a \<Rightarrow> (string \<times> 'a) list" where
  "map_set [] k v = [(k, v)]"
| "map_set ((k', v') # m) k v = (if k' = k then (k, v) # m else (k', v') # map_set m k v)"

definition map_delete :: "(string \<times> 'a) list \<Rightarrow> string \<Rightarrow> (string \<times> 'a) list" where
  "map_delete m k = filter (\<lambda>p. fst p \<noteq> k) m"

definition map_values :: "(string \<times> 'a) list \<Rightarrow> 'a list" where
  "map_values m = map snd m"

record Base44Client =
  agents :: "(string \<times> Agent) list"
  tasks :: "(string \<times> Task) list"

text \<open>
  What one key of local storage holds, as \<open>loadFromStorage\<close> can tell it apart: no
  item (or the empty string), a text that \<open>JSON.parse\<close> rejects, a JSON value that is
  not an array, or an array. An array element is \<open>None\<close> when it is falsy.
\<close>

datatype 'a stored = Absent | Unparsable | NotArray | Items "'a option list"

record localStorage =
  base44_agents :: "Agent stored"
  base44_tasks :: "Task stored"

definition load_entries :: "('a \<Rightarrow> string) \<Rightarrow> 'a stored \<Rightarrow> (string \<times> 'a) list" where
  "load_entries ident s =
     (case s of
        Items xs \<Rightarrow>
          fold (\<lambda>x m. case x of None \<Rightarrow> m
                       | Some a \<Rightarrow> (if ident a \<noteq> [] then map_set m (ident a) a else m)) xs []
      | _ \<Rightarrow> [])"

text \<open>
  The constructor: both maps start empty and are filled from storage. A parse error
  removes both items and leaves the maps as far as they were filled.
\<close>

definition loadFromStorage :: "localStorage \<Rightarrow> Base44Client \<times> localStorage" where
  "loadFromStorage st =
     (if base44_agents st = Unparsable then
        (\<lparr>agents = [], tasks = []\<rparr>, \<lparr>base44_agents = Absent, base44_tasks = Absent\<rparr>)
      else if base44_tasks st = Unparsable then
        (\<lparr>agents = load_entries agent_id (base44_agents st), tasks = []\<rparr>,
         \<lparr>base44_agents = Absent, base44_tasks = Absent\<rparr>)
      else
        (\<lparr>agents = load_entries agent_id (base44_agents st),
          tasks = load_entries task_id (base44_tasks st)\<rparr>, st))"

definition time_of :: "nat option \<Rightarrow> nat" where
  "time_of d = (case d of None \<Rightarrow> 0 | Some t \<Rightarrow> t)"

text \<open>
  The handler of a quota error: a collection of more than 100 records keeps the 50 with
  the latest creation dates.
\<close>

definition prune :: "('a \<Rightarrow> string) \<Rightarrow> ('a \<Rightarrow> nat option) \<Rightarrow> (string \<times> 'a) list \<Rightarrow> (string \<times> 'a) list" where
  "prune ident created m =
     (if length (map_values m) > 100 then
        fold (\<lambda>a m'. map_delete m' (ident a))
          (take (length (map_values m) - 50) (sort_key (\<lambda>a. time_of (created a)) (map_values m))) m
      else m)"

text \<open>
  \<open>saveToStorage\<close>. \<open>fits\<close> tells whether storage accepts a content (otherwise
  \<open>setItem\<close> throws the quota error and stores nothing); the first argument is the
  depth of call stack left for the retries of the handler, each of which is a nested
  call. The result is \<open>True\<close> when the promise resolves.
\<close>

fun saveToStorage ::
  "(localStorage \<Rightarrow> bool) \<Rightarrow> nat \<Rightarrow> Base44Client \<Rightarrow> localStorage \<Rightarrow>
   bool \<times> Base44Client \<times> localStorage" where
  "saveToStorage fits 0 c st = (False, c, st)"
| "saveToStorage fits (Suc n) c st =
     (let st1 = (if map_values (agents c) \<noteq> []
                 then st\<lparr>base44_agents := Items (map Some (map_values (agents c)))\<rparr> else st);
          st2 = (if map_values (tasks c) \<noteq> []
                 then st1\<lparr>base44_tasks := Items (map Some (map_values (tasks c)))\<rparr> else st1);
          pruned = \<lparr>agents = prune agent_id agent_created (agents c),
                    tasks = prune task_id task_created (tasks c)\<rparr>
      in if map_values (agents c) \<noteq> [] \<and> \<not> fits st1 then saveToStorage fits n pruned st
         else if map_values (tasks c) \<noteq> [] \<and> \<not> fits st2 then saveToStorage fits n pruned st1
         else (True, c, st2))"

text \<open>
  \<open>entities.Agent.delete\<close> and \<open>entities.Task.delete\<close>: the promise of
  \<open>saveToStorage\<close> is neither awaited nor looked at.
\<close>

definition Agent_delete ::
  "(localStorage \<Rightarrow> bool) \<Rightarrow> nat \<Rightarrow> Base44Client \<times> localStorage \<Rightarrow> string \<Rightarrow>
   Base44Client \<times> localStorage" where
  "Agent_delete fits depth cs ident =
     snd (saveToStorage fits depth ((fst cs)\<lparr>agents := map_delete (agents (fst cs)) ident\<rparr>) (snd cs))"

definition Task_delete ::
  "(localStorage \<Rightarrow> bool) \<Rightarrow> nat \<Rightarrow> Base44Client \<times> localStorage \<Rightarrow> string \<Rightarrow>
   Base44Client \<times> localStorage" where
  "Task_delete fits depth cs ident =
     snd (saveToStorage fits depth ((fst cs)\<lparr>tasks := map_delete (tasks (fst cs)) ident\<rparr>) (snd cs))"

text \<open>
  \<open>entities.Agent.create\<close>; \<open>now\<close> and \<open>rnd\<close> are the clock and the random suffix.
  The record is in the map before the save is awaited, so a rejected save leaves it there.
\<close>

record AgentInput =
  new_name :: string
  new_role :: string
  new_system_prompt :: string
  new_model :: string

datatype store_error = InvalidInputData | SaveRejected

definition Agent_create ::
  "(localStorage \<Rightarrow> bool) \<Rightarrow> nat \<Rightarrow> nat \<Rightarrow> string \<Rightarrow> Base44Client \<times> localStorage \<Rightarrow>
   AgentInput \<Rightarrow> (store_error + Agent) \<times> Base44Client \<times> localStorage" where
  "Agent_create fits depth now rnd cs d =
     (if new_name d = [] \<or> new_role d = [] \<or> new_system_prompt d = [] \<or> new_model d = []
      then (Inl InvalidInputData, cs)
      else
        (let a = \<lparr>agent_id = ''agent_'' @ decimal now @ ''_'' @ rnd, agent_name = new_name d,
                  agent_role = new_role d, system_prompt = new_system_prompt d,
                  agent_model = new_model d, agent_created = Some now\<rparr>;
             c1 = (fst cs)\<lparr>agents := map_set (agents (fst cs)) (agent_id a) a\<rparr>
         in case saveToStorage fits depth c1 (snd cs) of
              (ok, c2, st2) \<Rightarrow> (if ok then Inr a else Inl SaveRejected, c2, st2)))"

text \<open>\<open>entities.Task.create\<close>; the save is not awaited.\<close>

record TaskInput =
  new_title :: string
  new_description :: string
  new_status :: "task_status option"
  new_result :: "string option"
  new_agent_id :: string
  new_parent_task_id :: "string option"
  new_output_format :: "output_format option"

definition Task_create ::
  "(localStorage \<Rightarrow> bool) \<Rightarrow> nat \<Rightarrow> nat \<Rightarrow> string \<Rightarrow> Base44Client \<times> localStorage \<Rightarrow>
   TaskInput \<Rightarrow> Task \<times> Base44Client \<times> localStorage" where
  "Task_create fits depth now rnd cs d =
     (let t = \<lparr>task_id = ''task_'' @ decimal now @ ''_'' @ rnd, title = new_title d,
               description = new_description d,
               status = (case new_status d of None \<Rightarrow> Todo | Some s \<Rightarrow> s),
               result = new_result d, task_agent_id = new_agent_id d,
               parent_task_id = new_parent_task_id d,
               task_output_format = new_output_format d, task_created = Some now\<rparr>
      in (t, snd (saveToStorage fits depth
                    ((fst cs)\<lparr>tasks := map_set (tasks (fst cs)) (task_id t) t\<rparr>) (snd cs))))"

section \<open>Running a task (pages/Tasks.tsx, handleRunTask)\<close>



text \<open>
  What \<open>handleRunTask\<close> does to its surroundings, in order: toasts, task updates
  through the store and events put on the bus. The bus calls are taken to return.
\<close>

datatype action =
    ToastError string
  | ToastSuccess string
  | UpdateTask string task_status string
  | EmitAgentStatus string string
  | EmitThinking string string string
  | EmitOutput string string string
  | EmitError string string string






section \<open>Example data\<close>

text \<open>The frames of the scenario of the spec, and a callback that returns normally.\<close>

definition frame_Hel :: string where
  \<open>frame_Hel = ''data: {"choices":[{"delta":{"content":"Hel"}}]}''\<close>

definition frame_lo :: string where
  \<open>frame_lo = ''data: {"choices":[{"delta":{"content":"lo"}}]}''\<close>

definition frame_DONE :: string where
  "frame_DONE = ''data: [DONE]''"

definition frame_bad :: string where
  \<open>frame_bad = ''data: {"choices":[{"delta":''\<close>

definition frame_Hel_head :: string where
  \<open>frame_Hel_head = ''data: {"choices":[{"delta":{"con''\<close>

definition frame_Hel_tail :: string where
  \<open>frame_Hel_tail = ''tent":"Hel"}}]}''\<close>

definition returns :: "'a \<Rightarrow> bool" where
  "returns x = False"

text \<open>A bus with two subscribers, of which the first throws on every event.\<close>

definition first_listener_throws :: "listener \<Rightarrow> StreamEvent \<Rightarrow> bool" where
  "first_listener_throws l ev = (l = 1)"

definition two_listeners :: StreamingService where
  "two_listeners = subscribe (subscribe new_StreamingService 1) 2"

definition sample_input :: EventInput where
  "sample_input =
     \<lparr>in_type = Output, in_content = ''hello'', in_agentId = None, in_taskId = None,
      in_metadata = None\<rparr>"

text \<open>A new bus after one publish.\<close>

definition one_event :: StreamingService where
  "one_event = snd (emit first_listener_throws 5 ''a'' new_StreamingService sample_input)"

text \<open>An empty browser: nothing stored, every content accepted.\<close>

definition empty_storage :: localStorage where
  "empty_storage = \<lparr>base44_agents = Absent, base44_tasks = Absent\<rparr>"

definition always_fits :: "localStorage \<Rightarrow> bool" where
  "always_fits st = True"

definition sample_agent :: AgentInput where
  "sample_agent =
     \<lparr>new_name = ''Writer'', new_role = ''author'', new_system_prompt = ''You write.'',
      new_model = ''llama-3.3-70b-versatile''\<rparr>"

definition sample_task :: TaskInput where
  "sample_task =
     \<lparr>new_title = ''Draft'', new_description = ''Write a draft.'', new_status = Some Todo,
      new_result = Some [], new_agent_id = ''agent_7_abc'', new_parent_task_id = None,
      new_output_format = Some TextFormat\<rparr>"




text \<open>The store after one agent, or one task, has been created in an empty browser.\<close>

definition one_agent :: "Base44Client \<times> localStorage" where
  "one_agent =
     snd (Agent_create always_fits 10 7 ''abc'' (\<lparr>agents = [], tasks = []\<rparr>, empty_storage)
            sample_agent)"

definition one_task :: "Base44Client \<times> localStorage" where
  "one_task =
     snd (Task_create always_fits 10 8 ''xyz'' (\<lparr>agents = [], tasks = []\<rparr>, empty_storage)
            sample_task)"

definition created_agent :: Agent where
  "created_agent =
     \<lparr>agent_id = ''agent_7_abc'', agent_name = ''Writer'', agent_role = ''author'',
      system_prompt = ''You write.'', agent_model = ''llama-3.3-70b-versatile'',
      agent_created = Some 7\<rparr>"

definition created_task :: Task where
  "created_task =
     \<lparr>task_id = ''task_8_xyz'', title = ''Draft'', description = ''Write a draft.'',
      status = Todo, result = Some [], task_agent_id = ''agent_7_abc'',
      parent_task_id = None, task_output_format = Some TextFormat, task_created = Some 8\<rparr>"

text \<open>
  Three submissions within two milliseconds, the second with a malformed credential, on
  a network that answers every request after five seconds with a stream that holds
  only the sentinel; timers fire on time.
\<close>

definition good_key :: string where
  "good_key = ''gsk_0123456789abcdefghijklmnopqrstuvwxyz''"

definition demo_request :: "nat \<Rightarrow> string \<Rightarrow> request" where
  "demo_request i key =
     \<lparr>req_id = i, apiKey = key, req_model = ''llama-3.3-70b-versatile'',
      req_messages = [\<lparr>msg_role = ''user'', msg_content = ''Hi''\<rparr>], jsonMode = False,
      onChunk = None, onThinking = None\<rparr>"

definition demo_response :: "request \<Rightarrow> fetch_result" where
  "demo_response r =
     Responds \<lparr>resp_ok = True, http_status = 200, statusText = ''OK'', provider_message = None,
       response_body = Some \<lparr>chunks = [frame_DONE @ NL], ending = Done\<rparr>\<rparr>"

definition five_seconds :: "request \<Rightarrow> nat" where
  "five_seconds r = 5000"

definition on_time :: "nat \<Rightarrow> nat" where
  "on_time t = 0"

definition demo_host :: host where
  "demo_host =
     \<lparr>parse = JSON_parse, net = demo_response, latency = five_seconds, timer_late = on_time\<rparr>"

definition demo_submissions :: "(nat \<times> request) list" where
  "demo_submissions =
     [(1000, demo_request 1 good_key), (1001, demo_request 2 ''sk-wrong''),
      (1002, demo_request 3 good_key)]"

section \<open>Properties of the event bus\<close>

lemma slice_last_absorb: "slice_last n (slice_last n xs @ ys) = slice_last n (xs @ ys)"
proof (cases "length xs \<le> n")
  case True
  then show ?thesis by (simp add: slice_last_def)
next
  case False
  then have "length xs - n + length ys = length xs + length ys - n" by arith
  with False show ?thesis by (simp add: slice_last_def add.commute)
qed

lemma length_slice_last: "length (slice_last n xs) = min (length xs) n"
  by (simp add: slice_last_def)

lemma map_slice_last: "map f (slice_last n xs) = slice_last n (map f xs)"
  by (simp add: slice_last_def drop_map)

lemma fold_max_above:
  "n \<le> fold (\<lambda>r m. max (Suc r) m) xs n \<and>
   (\<forall>r \<in> set xs. r < fold (\<lambda>r m. max (Suc r) m) xs n)"
proof (induction xs arbitrary: n)
  case Nil
  show ?case by simp
next
  case (Cons x xs)
  from Cons.IH [of "max (Suc x) n"] show ?case by auto
qed

lemma new_ref_fresh: "r \<in> set (arrays s (events s)) \<Longrightarrow> r < new_ref s"
  using fold_max_above [of "next_ref s" "arrays s (events s)"] by (simp add: new_ref_def)

lemma new_ref_counter:
  "list_all (\<lambda>r. r < next_ref s) (arrays s (events s)) \<Longrightarrow> new_ref s = next_ref s"
proof -
  have "list_all (\<lambda>r. r < n) xs \<Longrightarrow> fold (\<lambda>r m. max (Suc r) m) xs n = n" for xs and n :: nat
    by (induction xs) (simp_all add: max_def)
  then show "list_all (\<lambda>r. r < next_ref s) (arrays s (events s)) \<Longrightarrow> new_ref s = next_ref s"
    by (simp add: new_ref_def)
qed

lemma history_push:
  "history (push_event s ev) = history s @ [ev]"
proof -
  have "map ((objects s)(new_ref s := ev)) (arrays s (events s)) =
        map (objects s) (arrays s (events s))"
    using new_ref_fresh [of _ s] by (intro map_cong) auto
  then show ?thesis
    by (simp add: history_def array_events_def push_event_def)
qed

lemma history_truncate:
  "history (truncate_events s) = slice_last maxEvents (history s)"
  by (simp add: history_def array_events_def truncate_events_def map_slice_last)
     (simp add: slice_last_def)

lemma history_push_truncate:
  "history (truncate_events (push_event s ev)) = slice_last maxEvents (history s @ [ev])"
  by (simp add: history_truncate history_push)

lemma listeners_push_truncate:
  "listeners (truncate_events (push_event s ev)) = listeners s"
  by (simp add: truncate_events_def push_event_def)

lemma delivered_push_truncate:
  "delivered (truncate_events (push_event s ev)) = delivered s"
  by (simp add: truncate_events_def push_event_def)

lemma history_delivered_update: "history (s\<lparr>delivered := log\<rparr>) = history s"
  by (simp add: history_def array_events_def)

lemma history_emit:
  "history (snd (emit throws now rnd s e)) =
     slice_last maxEvents (history s @ [mk_event now rnd e])"
  using history_push_truncate [of s "mk_event now rnd e"]
  by (simp add: emit_def Let_def history_delivered_update split: prod.splits)

lemma history_emit_all:
  "length (history s) \<le> maxEvents \<Longrightarrow>
   history (emit_all throws s es) = slice_last maxEvents (history s @ published es)"
proof (induction es arbitrary: s)
  case Nil
  then show ?case by (simp add: published_def slice_last_def)
next
  case (Cons x es)
  obtain now rnd e where x: "x = (now, rnd, e)" by (cases x) auto
  have "length (history (snd (emit throws now rnd s e))) \<le> maxEvents"
    by (simp add: history_emit length_slice_last)
  from Cons.IH [OF this] show ?case
    unfolding x
    by (simp add: history_emit published_def slice_last_absorb)
qed

lemma addr_ok_push: "addr_ok s \<Longrightarrow> addr_ok (push_event s ev)"
proof -
  assume ok: "addr_ok s"
  have "list_all (\<lambda>r. r < Suc (new_ref s)) (arrays s (events s))"
    using new_ref_fresh [of _ s] by (auto simp: list_all_iff less_Suc_eq)
  with ok show ?thesis by (simp add: addr_ok_def push_event_def)
qed

lemma addr_ok_truncate: "addr_ok s \<Longrightarrow> addr_ok (truncate_events s)"
  by (auto simp: addr_ok_def truncate_events_def slice_last_def list_all_iff
      dest: in_set_dropD)

lemma addr_ok_emit: "addr_ok s \<Longrightarrow> addr_ok (snd (emit throws now rnd s e))"
proof -
  assume "addr_ok s"
  then have "addr_ok (truncate_events (push_event s (mk_event now rnd e)))"
    by (intro addr_ok_truncate addr_ok_push)
  then show ?thesis
    by (simp add: emit_def Let_def addr_ok_def split: prod.splits)
qed

lemma addr_ok_emit_all: "addr_ok s \<Longrightarrow> addr_ok (emit_all throws s es)"
  by (induction es arbitrary: s) (auto simp: addr_ok_emit)

lemma getEvents_copy:
  "addr_ok s \<Longrightarrow>
   getEvents_result s = history s \<and>
   getEvents_refs s = arrays s (events s) \<and>
   history (array_write (snd (getEvents s)) (fst (getEvents s)) xs) = history s"
  by (simp add: getEvents_def getEvents_result_def getEvents_refs_def history_def
      array_events_def array_write_def addr_ok_def)

lemma forEach_listeners_log:
  "snd (forEach_listeners throws ls ev log) =
     log @ map (\<lambda>l. (l, ev))
       (takeWhile (\<lambda>l. \<not> throws l ev) ls @ take 1 (dropWhile (\<lambda>l. \<not> throws l ev) ls))"
  by (induction ls arbitrary: log) auto

lemma forEach_listeners_threw:
  "fst (forEach_listeners throws ls ev log) = (dropWhile (\<lambda>l. \<not> throws l ev) ls \<noteq> [])"
  by (induction ls arbitrary: log) auto

text \<open>
  C6 as the code has it. After any sequence of publishes on a new bus, whoever is
  subscribed and whatever the listeners do, the history is the last \<open>maxEvents\<close> (100)
  published events, oldest first, so a sequence longer than the capacity leaves exactly
  the 100 most recent ones. \<open>getEvents\<close> returns them in a new array, and whatever is
  written into that array leaves the history of the bus as it was; the elements of the
  new array are the references of the history array, that is, the same event objects.
\<close>

theorem getEvents_most_recent:
  "history (emit_all throws (new_StreamingService\<lparr>listeners := ls\<rparr>) es) =
     drop (length es - 100) (published es) \<and>
   length (history (emit_all throws (new_StreamingService\<lparr>listeners := ls\<rparr>) es)) =
     min (length es) 100 \<and>
   getEvents_result (emit_all throws (new_StreamingService\<lparr>listeners := ls\<rparr>) es) =
     drop (length es - 100) (published es) \<and>
   history (array_write
              (snd (getEvents (emit_all throws (new_StreamingService\<lparr>listeners := ls\<rparr>) es)))
              (fst (getEvents (emit_all throws (new_StreamingService\<lparr>listeners := ls\<rparr>) es)))
              xs) =
     drop (length es - 100) (published es) \<and>
   getEvents_refs (emit_all throws (new_StreamingService\<lparr>listeners := ls\<rparr>) es) =
     arrays (emit_all throws (new_StreamingService\<lparr>listeners := ls\<rparr>) es)
       (events (emit_all throws (new_StreamingService\<lparr>listeners := ls\<rparr>) es))"
proof -
  let ?init = "new_StreamingService\<lparr>listeners := ls\<rparr>"
  let ?s = "emit_all throws ?init es"
  have h0: "history ?init = []"
    by (simp add: history_def array_events_def new_StreamingService_def)
  then have len0: "length (history ?init) \<le> maxEvents" by simp
  have h: "history ?s = slice_last maxEvents (published es)"
    using history_emit_all [OF len0, of throws es] by (simp only: h0 append_Nil)
  have d: "slice_last maxEvents (published es) = drop (length es - 100) (published es)"
    by (simp add: slice_last_def maxEvents_def published_def)
  have "addr_ok ?init"
    by (simp add: addr_ok_def new_StreamingService_def)
  then have ok: "addr_ok ?s" by (rule addr_ok_emit_all)
  have l: "length (history ?s) = min (length es) 100"
    by (simp add: h length_slice_last published_def maxEvents_def)
  from h d l getEvents_copy [OF ok, of xs] show ?thesis by simp
qed

text \<open>
  C6 as the spec states it fails on the copy: \<open>getEvents\<close> copies the array and not
  the events. After one publish, the caller of \<open>getEvents\<close> holds an array whose only
  element is the event object of the history, and an assignment to the \<open>content\<close> of
  that element changes the content of the event in the history of the bus.
\<close>

theorem getEvents_elements_shared:
  "map content (history one_event) = [''hello''] \<and>
   getEvents_refs one_event = [0] \<and>
   map content (history (snd (getEvents one_event))) = [''hello''] \<and>
   map content
     (history (object_write (snd (getEvents one_event)) 0 (set_content ''edited''))) =
     [''edited'']"
  by (simp add: one_event_def emit_def Let_def new_StreamingService_def push_event_def
      truncate_events_def new_ref_def maxEvents_def history_def array_events_def
      getEvents_def getEvents_refs_def object_write_def set_content_def mk_event_def
      sample_input_def)

text \<open>
  C2 as the code has it. \<open>emit\<close> calls the listeners in subscription order up to and
  including the first one that throws; its exception leaves \<open>emit\<close>, and the listeners
  subscribed after it are not called. When no listener throws, all of them are called.
  The event is in the history in both cases.
\<close>

theorem emit_notifies_up_to_first_throw:
  "fst (emit throws now rnd s e) =
     (dropWhile (\<lambda>l. \<not> throws l (mk_event now rnd e)) (listeners s) \<noteq> []) \<and>
   delivered (snd (emit throws now rnd s e)) =
     delivered s @ map (\<lambda>l. (l, mk_event now rnd e))
       (takeWhile (\<lambda>l. \<not> throws l (mk_event now rnd e)) (listeners s) @
        take 1 (dropWhile (\<lambda>l. \<not> throws l (mk_event now rnd e)) (listeners s))) \<and>
   history (snd (emit throws now rnd s e)) =
     slice_last maxEvents (history s @ [mk_event now rnd e])"
proof -
  let ?ev = "mk_event now rnd e"
  let ?s1 = "truncate_events (push_event s ?ev)"
  have e: "emit throws now rnd s e =
      (fst (forEach_listeners throws (listeners s) ?ev (delivered s)),
       ?s1\<lparr>delivered := snd (forEach_listeners throws (listeners s) ?ev (delivered s))\<rparr>)"
    by (simp add: emit_def Let_def listeners_push_truncate delivered_push_truncate
        split: prod.splits)
  have a: "fst (emit throws now rnd s e) =
      (dropWhile (\<lambda>l. \<not> throws l ?ev) (listeners s) \<noteq> [])"
    by (simp add: e forEach_listeners_threw)
  have b: "delivered (snd (emit throws now rnd s e)) =
      delivered s @ map (\<lambda>l. (l, ?ev))
        (takeWhile (\<lambda>l. \<not> throws l ?ev) (listeners s) @
         take 1 (dropWhile (\<lambda>l. \<not> throws l ?ev) (listeners s)))"
    by (simp add: e forEach_listeners_log)
  from a b history_emit [of throws now rnd s e] show ?thesis by blast
qed

text \<open>
  C2 as the spec states it fails: with two subscribers of which the first throws, the
  second one, which is subscribed and does not throw, is never called.
\<close>

theorem emit_listener_not_isolated:
  "listeners two_listeners = [1, 2] \<and>
   \<not> first_listener_throws 2 (mk_event 5 ''a'' sample_input) \<and>
   fst (emit first_listener_throws 5 ''a'' two_listeners sample_input) \<and>
   map fst (delivered (snd (emit first_listener_throws 5 ''a'' two_listeners sample_input))) = [1]"
  by (simp add: emit_def Let_def two_listeners_def subscribe_def new_StreamingService_def
      first_listener_throws_def truncate_events_def push_event_def maxEvents_def)

section \<open>Properties of the stream decoder\<close>

lemma split_on_nonempty: "split_on c xs \<noteq> []"
  by (induction xs) (auto split: list.splits)

lemma split_on_append: "split_on c (xs @ c # ys) = split_on c xs @ split_on c ys"
proof (induction xs)
  case Nil
  show ?case by simp
next
  case (Cons x xs)
  obtain p ps where "split_on c xs = p # ps"
    using split_on_nonempty [of c xs] by (cases "split_on c xs") auto
  with Cons show ?case by simp
qed

lemma chunk_lines_append: "chunk_lines (a @ NL @ b) = chunk_lines a @ chunk_lines b"
  by (simp add: chunk_lines_def NL_def split_on_append)

lemma chunk_lines_empty: "chunk_lines [] = []"
  by (simp add: chunk_lines_def js_trim_def)

lemma chunk_lines_newline_end: "chunk_lines (a @ NL) = chunk_lines a"
  using chunk_lines_append [of a "[]"] by (simp add: chunk_lines_empty)

lemma for_lines_append:
  "for_lines P oc ot d (xs @ ys) =
     (case for_lines P oc ot d xs of Return d' \<Rightarrow> Return d'
      | Continue d' \<Rightarrow> for_lines P oc ot d' ys)"
  by (induction xs arbitrary: d) (auto split: flow.splits)

lemma handle_line_malformed:
  assumes "startsWith bad ''data: ''" and "bad \<noteq> ''data: [DONE]''" and "P (drop 6 bad) = None"
  shows "handle_line P oc ot d bad = Continue d"
  using assms by (simp add: handle_line_def)

lemma for_lines_malformed:
  assumes "startsWith bad ''data: ''" and "bad \<noteq> ''data: [DONE]''" and "P (drop 6 bad) = None"
  shows "for_lines P oc ot d (pre @ [bad] @ post) = for_lines P oc ot d (pre @ post)"
  using assms by (simp add: for_lines_append handle_line_malformed split: flow.splits)

lemma read_loop_prefix_result:
  assumes "\<And>d. fst (read_loop P oc ot e d xs) = fst (read_loop P oc ot e d ys)"
    and "\<And>d. fst (snd (read_loop P oc ot e d xs)) = fst (snd (read_loop P oc ot e d ys))"
  shows "fst (read_loop P oc ot e d (A @ xs)) = fst (read_loop P oc ot e d (A @ ys)) \<and>
         fst (snd (read_loop P oc ot e d (A @ xs))) = fst (snd (read_loop P oc ot e d (A @ ys)))"
  using assms by (induction A arbitrary: d) (auto split: flow.splits)

lemma returned_processStreamResponse:
  "returned (processStreamResponse P (Some b) oc ot) =
     fst (read_loop P oc ot (ending b) decoder0 (chunks b))"
  by (simp add: processStreamResponse_def case_prod_beta)

lemma called_processStreamResponse:
  "called (processStreamResponse P (Some b) oc ot) =
     calls (fst (snd (read_loop P oc ot (ending b) decoder0 (chunks b))))"
  by (simp add: processStreamResponse_def case_prod_beta)

lemma unread_processStreamResponse:
  "unread (processStreamResponse P (Some b) oc ot) =
     snd (snd (read_loop P oc ot (ending b) decoder0 (chunks b)))"
  by (simp add: processStreamResponse_def case_prod_beta)

text \<open>
  C8. A line that carries the data prefix, is not the sentinel, and whose payload
  \<open>JSON.parse\<close> rejects changes nothing: a stream in which one chunk holds such a line
  among its lines gives the same result (text or error) and the same callback calls as
  the stream with that line taken out of the chunk. This holds for every parser \<open>P\<close>.
\<close>

theorem malformed_line_removed:
  assumes "startsWith bad ''data: ''" and "bad \<noteq> ''data: [DONE]''" and "P (drop 6 bad) = None"
    and "chunk_lines c = pre @ [bad] @ post" and "chunk_lines c' = pre @ post"
  shows "returned (processStreamResponse P (Some \<lparr>chunks = A @ [c] @ B, ending = e\<rparr>) oc ot) =
         returned (processStreamResponse P (Some \<lparr>chunks = A @ [c'] @ B, ending = e\<rparr>) oc ot) \<and>
         called (processStreamResponse P (Some \<lparr>chunks = A @ [c] @ B, ending = e\<rparr>) oc ot) =
         called (processStreamResponse P (Some \<lparr>chunks = A @ [c'] @ B, ending = e\<rparr>) oc ot)"
proof -
  have fl: "for_lines P oc ot d (chunk_lines c) = for_lines P oc ot d (chunk_lines c')" for d
    using for_lines_malformed [of bad P oc ot d pre post] assms by simp
  have "fst (read_loop P oc ot e decoder0 (A @ [c] @ B)) =
          fst (read_loop P oc ot e decoder0 (A @ [c'] @ B)) \<and>
        fst (snd (read_loop P oc ot e decoder0 (A @ [c] @ B))) =
          fst (snd (read_loop P oc ot e decoder0 (A @ [c'] @ B)))"
    by (rule read_loop_prefix_result) (simp_all add: fl split: flow.splits)
  then show ?thesis
    by (simp add: returned_processStreamResponse called_processStreamResponse)
qed

text \<open>
  C1 as the code has it. The decoder keeps no pending text between reads: every chunk
  is split on newline by itself and each non-blank piece is handled as a line. So when a
  read ends with a newline, the result and the callback calls are those of the stream
  in which that read and the next one arrive as a single chunk.
\<close>

theorem reads_joined_at_line_end:
  "returned (processStreamResponse P (Some \<lparr>chunks = A @ [c1 @ NL, c2] @ B, ending = e\<rparr>) oc ot) =
   returned (processStreamResponse P (Some \<lparr>chunks = A @ [c1 @ NL @ c2] @ B, ending = e\<rparr>) oc ot) \<and>
   called (processStreamResponse P (Some \<lparr>chunks = A @ [c1 @ NL, c2] @ B, ending = e\<rparr>) oc ot) =
   called (processStreamResponse P (Some \<lparr>chunks = A @ [c1 @ NL @ c2] @ B, ending = e\<rparr>) oc ot)"
proof -
  have *: "fst (read_loop P oc ot e d ([c1 @ NL, c2] @ B)) = fst (read_loop P oc ot e d ([c1 @ NL @ c2] @ B)) \<and>
        fst (snd (read_loop P oc ot e d ([c1 @ NL, c2] @ B))) = fst (snd (read_loop P oc ot e d ([c1 @ NL @ c2] @ B)))" for d
    by (simp add: chunk_lines_append chunk_lines_newline_end for_lines_append split: flow.splits)
  have "fst (read_loop P oc ot e decoder0 (A @ [c1 @ NL, c2] @ B)) = fst (read_loop P oc ot e decoder0 (A @ [c1 @ NL @ c2] @ B)) \<and>
        fst (snd (read_loop P oc ot e decoder0 (A @ [c1 @ NL, c2] @ B))) = fst (snd (read_loop P oc ot e decoder0 (A @ [c1 @ NL @ c2] @ B)))"
    by (rule read_loop_prefix_result) (simp_all only: *)
  then show ?thesis
    by (simp add: returned_processStreamResponse called_processStreamResponse)
qed

lemma for_lines_scenario:
  "for_lines JSON_parse (Some returns) (Some returns) decoder0 [frame_Hel, frame_lo, frame_DONE] =
     Return \<lparr>fullContent = ''Hello'', firstChunk = False,
             calls = [OnThinking None, OnChunk ''Hel'', OnChunk ''Hello'']\<rparr>"
  by code_simp

lemma chunk_lines_scenario:
  "chunk_lines (frame_Hel @ NL @ frame_lo @ NL @ frame_DONE) = [frame_Hel, frame_lo, frame_DONE]"
  by code_simp

lemma chunk_lines_sentinel: "chunk_lines frame_DONE = [frame_DONE]"
  by code_simp

text \<open>
  C7. The three lines of the scenario, in one chunk or in three, give the text
  \<open>Hello\<close>; \<open>onThinking(null)\<close> is called once, before the first \<open>onChunk\<close>; the
  decoder returns at the sentinel, so neither the text after it in the chunk nor any
  later read is looked at.
\<close>

theorem scenario_Hello:
  "processStreamResponse JSON_parse
     (Some \<lparr>chunks = (frame_Hel @ NL @ frame_lo @ NL @ frame_DONE @ NL @ trailing) # rest,
            ending = e\<rparr>) (Some returns) (Some returns) =
   \<lparr>returned = Inr ''Hello'',
     called = [OnThinking None, OnChunk ''Hel'', OnChunk ''Hello''], unread = rest\<rparr> \<and>
   processStreamResponse JSON_parse
     (Some \<lparr>chunks = (frame_Hel @ NL) # (frame_lo @ NL) # (frame_DONE @ NL @ trailing) # rest,
            ending = e\<rparr>) (Some returns) (Some returns) =
   \<lparr>returned = Inr ''Hello'',
     called = [OnThinking None, OnChunk ''Hel'', OnChunk ''Hello''], unread = rest\<rparr>"
proof -
  let ?fl = "for_lines JSON_parse (Some returns) (Some returns)"
  let ?d1 = "\<lparr>fullContent = ''Hel'', firstChunk = False,
              calls = [OnThinking None, OnChunk ''Hel'']\<rparr>"
  let ?d2 = "\<lparr>fullContent = ''Hello'', firstChunk = False,
              calls = [OnThinking None, OnChunk ''Hel'', OnChunk ''Hello'']\<rparr>"
  have cl: "chunk_lines (frame_Hel @ NL @ frame_lo @ NL @ frame_DONE @ NL @ trailing) =
        [frame_Hel, frame_lo, frame_DONE] @ chunk_lines trailing"
    using chunk_lines_append [of "frame_Hel @ NL @ frame_lo @ NL @ frame_DONE" trailing]
    by (simp add: chunk_lines_scenario)
  have one: "?fl decoder0 (chunk_lines (frame_Hel @ NL @ frame_lo @ NL @ frame_DONE @ NL @ trailing)) =
        Return ?d2"
    by (simp only: cl for_lines_append for_lines_scenario flow.case)
  have c1: "chunk_lines (frame_Hel @ NL) = [frame_Hel]" by code_simp
  have c2: "chunk_lines (frame_lo @ NL) = [frame_lo]" by code_simp
  have c3: "chunk_lines (frame_DONE @ NL @ trailing) = [frame_DONE] @ chunk_lines trailing"
    using chunk_lines_append [of frame_DONE trailing] chunk_lines_sentinel by simp
  have f1: "?fl decoder0 [frame_Hel] = Continue ?d1" by code_simp
  have f2: "?fl ?d1 [frame_lo] = Continue ?d2" by code_simp
  have f3: "?fl ?d2 [frame_DONE] = Return ?d2" by code_simp
  have three: "?fl ?d2 (frame_DONE # chunk_lines trailing) = Return ?d2"
    using for_lines_append [of JSON_parse "Some returns" "Some returns" ?d2 "[frame_DONE]"
        "chunk_lines trailing"] f3
    by (simp del: for_lines.simps)
  have a: "read_loop JSON_parse (Some returns) (Some returns) e decoder0
         ((frame_Hel @ NL @ frame_lo @ NL @ frame_DONE @ NL @ trailing) # rest) =
         (Inr ''Hello'', ?d2, rest)"
    by (simp add: one del: for_lines.simps)
  have b: "read_loop JSON_parse (Some returns) (Some returns) e decoder0
         ((frame_Hel @ NL) # (frame_lo @ NL) # (frame_DONE @ NL @ trailing) # rest) =
         (Inr ''Hello'', ?d2, rest)"
    by (simp add: c1 c2 c3 f1 f2 three del: for_lines.simps)
  show ?thesis
    by (simp add: processStreamResponse_def a b del: read_loop.simps)
qed


text \<open>
  C1 as the spec states it fails: a frame cut between two reads is handled as two lines,
  the first rejected by the parser and the second without the data prefix, and its
  delta is lost, while the same frame in one read gives \<open>Hel\<close>.
\<close>

theorem split_frame_lost:
  "frame_Hel_head @ frame_Hel_tail = frame_Hel \<and>
   processStreamResponse JSON_parse
     (Some \<lparr>chunks = [frame_Hel_head, frame_Hel_tail @ NL], ending = Done\<rparr>)
     (Some returns) (Some returns) =
   \<lparr>returned = Inr [], called = [], unread = []\<rparr> \<and>
   processStreamResponse JSON_parse
     (Some \<lparr>chunks = [frame_Hel_head @ frame_Hel_tail @ NL], ending = Done\<rparr>)
     (Some returns) (Some returns) =
   \<lparr>returned = Inr ''Hel'', called = [OnThinking None, OnChunk ''Hel''], unread = []\<rparr>"
  by code_simp

theorem malformed_line_removed_witness:
  "startsWith frame_bad ''data: '' \<and> frame_bad \<noteq> ''data: [DONE]'' \<and>
   JSON_parse (drop 6 frame_bad) = None \<and>
   chunk_lines (frame_Hel @ NL @ frame_bad @ NL @ frame_lo @ NL) =
     [frame_Hel] @ [frame_bad] @ [frame_lo] \<and>
   chunk_lines (frame_Hel @ NL @ frame_lo @ NL) = [frame_Hel] @ [frame_lo] \<and>
   returned (processStreamResponse JSON_parse
     (Some \<lparr>chunks = [] @ [frame_Hel @ NL @ frame_bad @ NL @ frame_lo @ NL] @ [],
            ending = Done\<rparr>) (Some returns) (Some returns)) = Inr ''Hello'' \<and>
   returned (processStreamResponse JSON_parse
     (Some \<lparr>chunks = [] @ [frame_Hel @ NL @ frame_lo @ NL] @ [],
            ending = Done\<rparr>) (Some returns) (Some returns)) = Inr ''Hello''"
proof -
  have h1: "startsWith frame_bad ''data: ''" by code_simp
  have h2: "frame_bad \<noteq> ''data: [DONE]''" by code_simp
  have h3: "JSON_parse (drop 6 frame_bad) = None" by code_simp
  have h4: "chunk_lines (frame_Hel @ NL @ frame_bad @ NL @ frame_lo @ NL) =
     [frame_Hel] @ [frame_bad] @ [frame_lo]" by code_simp
  have h5: "chunk_lines (frame_Hel @ NL @ frame_lo @ NL) = [frame_Hel] @ [frame_lo]"
    by code_simp
  have r: "returned (processStreamResponse JSON_parse
     (Some \<lparr>chunks = [] @ [frame_Hel @ NL @ frame_lo @ NL] @ [],
            ending = Done\<rparr>) (Some returns) (Some returns)) = Inr ''Hello''"
    by code_simp
  from malformed_line_removed [where bad = frame_bad and P = JSON_parse
      and pre = "[frame_Hel]" and post = "[frame_lo]" and A = "[]" and B = "[]" and e = Done
      and oc = "Some returns" and ot = "Some returns", OF h1 h2 h3 h4 h5]
  have "returned (processStreamResponse JSON_parse
     (Some \<lparr>chunks = [] @ [frame_Hel @ NL @ frame_bad @ NL @ frame_lo @ NL] @ [],
            ending = Done\<rparr>) (Some returns) (Some returns)) = Inr ''Hello''"
    using r by (simp only:)
  with h1 h2 h3 h4 h5 r show ?thesis by blast
qed


section \<open>Properties of the CRUD store\<close>

lemma prune_empty: "prune ident created [] = []"
  by (simp add: prune_def map_values_def)

lemma saveToStorage_no_agents:
  "agents c = [] \<Longrightarrow>
   base44_agents (snd (snd (saveToStorage fits depth c st))) = base44_agents st \<and>
   agents (fst (snd (saveToStorage fits depth c st))) = []"
proof (induction depth arbitrary: c st)
  case 0
  then show ?case by simp
next
  case (Suc n)
  show ?case
    using Suc.prems Suc.IH [of "\<lparr>agents = prune agent_id agent_created (agents c),
                    tasks = prune task_id task_created (tasks c)\<rparr>"]
    by (simp add: Let_def map_values_def prune_empty)
qed

lemma saveToStorage_no_tasks:
  "tasks c = [] \<Longrightarrow>
   base44_tasks (snd (snd (saveToStorage fits depth c st))) = base44_tasks st \<and>
   tasks (fst (snd (saveToStorage fits depth c st))) = []"
proof (induction depth arbitrary: c st)
  case 0
  then show ?case by simp
next
  case (Suc n)
  show ?case
    using Suc.prems Suc.IH [of "\<lparr>agents = prune agent_id agent_created (agents c),
                    tasks = prune task_id task_created (tasks c)\<rparr>"]
    by (simp add: Let_def map_values_def prune_empty)
qed

lemma agents_loadFromStorage:
  "agents (fst (loadFromStorage st)) = load_entries agent_id (base44_agents st)"
  by (simp add: loadFromStorage_def load_entries_def)

lemma tasks_loadFromStorage:
  "tasks (fst (loadFromStorage st)) =
     (if base44_agents st = Unparsable then [] else load_entries task_id (base44_tasks st))"
  by (simp add: loadFromStorage_def load_entries_def)

text \<open>
  C10. \<open>saveToStorage\<close> writes a collection only when it is not empty. When the record
  deleted is the last one of its collection, the map is empty afterwards, the item in
  local storage is what it was before the delete, and a new client built from that
  storage loads the stored records again, the deleted one among them.
\<close>

theorem delete_last_record_not_persisted:
  "(map_delete (agents c) i = [] \<longrightarrow>
      agents (fst (Agent_delete fits depth (c, st) i)) = [] \<and>
      base44_agents (snd (Agent_delete fits depth (c, st) i)) = base44_agents st \<and>
      agents (fst (loadFromStorage (snd (Agent_delete fits depth (c, st) i)))) =
        load_entries agent_id (base44_agents st)) \<and>
   (map_delete (tasks c) i = [] \<longrightarrow>
      tasks (fst (Task_delete fits depth (c, st) i)) = [] \<and>
      base44_tasks (snd (Task_delete fits depth (c, st) i)) = base44_tasks st \<and>
      tasks (fst (loadFromStorage (snd (Task_delete fits depth (c, st) i)))) =
        (if base44_agents (snd (Task_delete fits depth (c, st) i)) = Unparsable then []
         else load_entries task_id (base44_tasks st)))"
proof -
  have a: "agents (fst (Agent_delete fits depth (c, st) i)) = [] \<and>
      base44_agents (snd (Agent_delete fits depth (c, st) i)) = base44_agents st"
    if "map_delete (agents c) i = []"
    using saveToStorage_no_agents [of "c\<lparr>agents := map_delete (agents c) i\<rparr>" fits depth st] that
    by (simp add: Agent_delete_def)
  have t: "tasks (fst (Task_delete fits depth (c, st) i)) = [] \<and>
      base44_tasks (snd (Task_delete fits depth (c, st) i)) = base44_tasks st"
    if "map_delete (tasks c) i = []"
    using saveToStorage_no_tasks [of "c\<lparr>tasks := map_delete (tasks c) i\<rparr>" fits depth st] that
    by (simp add: Task_delete_def)
  from a t show ?thesis
    by (simp add: agents_loadFromStorage tasks_loadFromStorage)
qed

theorem delete_last_record_not_persisted_witness:
  "map_delete (agents (fst one_agent)) ''agent_7_abc'' = [] \<and>
   base44_agents (snd one_agent) = Items [Some created_agent] \<and>
   agents (fst (Agent_delete always_fits 10 (fst one_agent, snd one_agent) ''agent_7_abc'')) = [] \<and>
   base44_agents (snd (Agent_delete always_fits 10 (fst one_agent, snd one_agent) ''agent_7_abc'')) =
     Items [Some created_agent] \<and>
   agents (fst (loadFromStorage
       (snd (Agent_delete always_fits 10 (fst one_agent, snd one_agent) ''agent_7_abc'')))) =
     [(''agent_7_abc'', created_agent)] \<and>
   map_delete (tasks (fst one_task)) ''task_8_xyz'' = [] \<and>
   base44_tasks (snd one_task) = Items [Some created_task] \<and>
   tasks (fst (Task_delete always_fits 10 (fst one_task, snd one_task) ''task_8_xyz'')) = [] \<and>
   base44_tasks (snd (Task_delete always_fits 10 (fst one_task, snd one_task) ''task_8_xyz'')) =
     Items [Some created_task] \<and>
   tasks (fst (loadFromStorage
       (snd (Task_delete always_fits 10 (fst one_task, snd one_task) ''task_8_xyz'')))) =
     [(''task_8_xyz'', created_task)]"
proof -
  have a1: "map_delete (agents (fst one_agent)) ''agent_7_abc'' = []" by code_simp
  have a2: "base44_agents (snd one_agent) = Items [Some created_agent]" by code_simp
  have a3: "load_entries agent_id (Items [Some created_agent]) = [(''agent_7_abc'', created_agent)]"
    by code_simp
  have t1: "map_delete (tasks (fst one_task)) ''task_8_xyz'' = []" by code_simp
  have t2: "base44_tasks (snd one_task) = Items [Some created_task]" by code_simp
  have t3: "load_entries task_id (Items [Some created_task]) = [(''task_8_xyz'', created_task)]"
    by code_simp
  have t4: "base44_agents (snd (Task_delete always_fits 10 (fst one_task, snd one_task) ''task_8_xyz''))
      \<noteq> Unparsable" by code_simp
  from delete_last_record_not_persisted
         [of "fst one_agent" "''agent_7_abc''" always_fits 10 "snd one_agent"]
       delete_last_record_not_persisted
         [of "fst one_task" "''task_8_xyz''" always_fits 10 "snd one_task"]
       a1 a2 a3 t1 t2 t3 t4
  show ?thesis by simp
qed


section \<open>Properties of the request queue\<close>

text \<open>
  The two views of a dispatch agree: what \<open>executeRequest\<close> does up to its first
  \<open>await\<close> is the beginning of what it does in all, and the loop dispatches within
  the call that entered it exactly when \<open>run\<close> dispatches without delay.
\<close>

lemma executeRequest_begin_agrees:
  "fetch_called (executeRequest h r) = snd (snd (executeRequest_begin r)) \<and>
   (case fst (executeRequest_begin r) of
      Some e \<Rightarrow>
        executeRequest h r =
          \<lparr>outcome = Inl e, callbacks = fst (snd (executeRequest_begin r)),
           fetch_called = False\<rparr>
    | None \<Rightarrow> True)"
  by (simp add: executeRequest_def executeRequest_begin_def Let_def split: sum.splits)

lemma processQueue_begin_agrees:
  assumes "requestQueue c = q # qs"
  shows "(fst (processQueue_begin now c) = InUnit q) = (dispatch_time h now c = now)"
    and "fst (processQueue_begin now c) = AtTimer w \<Longrightarrow>
         dispatch_time h now c = now + w + timer_late h now"
  using assms
  by (auto simp: processQueue_begin_def dispatch_time_def Let_def RATE_LIMIT_DELAY_def
      split: if_splits)

lemma deliver_busy:
  "isProcessing c \<Longrightarrow> deliver c rs = c\<lparr>requestQueue := requestQueue c @ rs\<rparr>"
  unfolding deliver_def
  by (induction rs arbitrary: c) (simp_all add: inference_enter_def processQueue_enter_def)

lemma due_later: "due t ss @ map snd (later t ss) = map snd ss"
  unfolding due_def later_def
  by (simp flip: map_append)

lemma dispatch_time_spaced:
  "lastRequestTime c + RATE_LIMIT_DELAY \<le> dispatch_time h now c"
  unfolding dispatch_time_def Let_def by (cases "int now - int (lastRequestTime c) < int RATE_LIMIT_DELAY") simp_all

lemma run_unit_eq:
  "run_unit h c r =
     (Normal,
      c\<lparr>fetched := fetched c @ map req_id (filter (\<lambda>r. fetch_called (executeRequest h r)) [r]),
        settled := settled c @ [(req_id r, outcome (executeRequest h r))]\<rparr>,
      if fetch_called (executeRequest h r) then latency h r else 0)"
  by (simp add: run_unit_def Let_def)

lemma run_result:
  assumes "isProcessing c \<or> requestQueue c = []"
  shows "\<exists>ds. snd (run h now c subs) = final_state h c (requestQueue c @ map snd subs) ds \<and>
              map fst ds = map req_id (requestQueue c @ map snd subs) \<and>
              spaced (lastRequestTime c) ds"
  using assms
proof (induction h now c subs rule: run.induct)
  case (1 h now c subs)
  show ?case
  proof (cases "isProcessing c")
    case False
    with "1.prems" have q: "requestQueue c = []" by simp
    show ?thesis
    proof (cases subs)
      case Nil
      have "snd (run h now c subs) = c"
        using False Nil by (simp add: run.simps)
      also have "c = final_state h c (requestQueue c @ map snd subs) []"
        using False q Nil by (simp add: final_state_def)
      finally show ?thesis using q Nil by auto
    next
      case (Cons s subs')
      obtain t r where s: "s = (t, r)" by (cases s) auto
      let ?c1 = "fst (inference_enter c r)"
      have c1: "?c1 = c\<lparr>requestQueue := [r], isProcessing := True\<rparr>"
        using False q by (simp add: inference_enter_def processQueue_enter_def)
      have "\<exists>ds. snd (run h (max now t) ?c1 subs') =
                  final_state h ?c1 (requestQueue ?c1 @ map snd subs') ds \<and>
                map fst ds = map req_id (requestQueue ?c1 @ map snd subs') \<and>
                spaced (lastRequestTime ?c1) ds"
        using "1.IH"(4) [OF False Cons s [symmetric]] c1 by simp
      then obtain ds where ds:
        "snd (run h (max now t) ?c1 subs') = final_state h ?c1 (requestQueue ?c1 @ map snd subs') ds"
        "map fst ds = map req_id (requestQueue ?c1 @ map snd subs')"
        "spaced (lastRequestTime ?c1) ds" by blast
      have r: "run h now c subs = run h (max now t) ?c1 subs'"
        using False Cons s by (simp add: run.simps)
      have "final_state h ?c1 (requestQueue ?c1 @ map snd subs') ds =
            final_state h c (requestQueue c @ map snd subs) ds"
        by (simp add: c1 q Cons s final_state_def)
      with ds(1) r
      have "snd (run h now c subs) = final_state h c (requestQueue c @ map snd subs) ds"
        by (simp only:)
      moreover have "map fst ds = map req_id (requestQueue c @ map snd subs)"
        using ds(2) by (simp add: c1 q Cons s)
      moreover have "spaced (lastRequestTime c) ds"
        using ds(3) by (simp add: c1)
      ultimately show ?thesis by blast
    qed
  next
    case busy: True
    show ?thesis
    proof (cases "requestQueue c")
      case Nil
      let ?c0 = "c\<lparr>isProcessing := False\<rparr>"
      have "\<exists>ds. snd (run h now ?c0 subs) =
                  final_state h ?c0 (requestQueue ?c0 @ map snd subs) ds \<and>
                map fst ds = map req_id (requestQueue ?c0 @ map snd subs) \<and>
                spaced (lastRequestTime ?c0) ds"
        using "1.IH"(1) [OF busy Nil] Nil by simp
      then obtain ds where ds:
        "snd (run h now ?c0 subs) = final_state h ?c0 (requestQueue ?c0 @ map snd subs) ds"
        "map fst ds = map req_id (requestQueue ?c0 @ map snd subs)"
        "spaced (lastRequestTime ?c0) ds" by blast
      have r: "run h now c subs = run h now ?c0 subs"
        using busy Nil by (subst run.simps) simp
      have "final_state h ?c0 (requestQueue ?c0 @ map snd subs) ds =
            final_state h c (requestQueue c @ map snd subs) ds"
        by (simp add: final_state_def)
      with ds(1) r
      have "snd (run h now c subs) = final_state h c (requestQueue c @ map snd subs) ds"
        by (simp only:)
      with ds(2,3) show ?thesis by auto
    next
      case (Cons q qs)
      define start where "start = dispatch_time h now c"
      define c1 where "c1 = deliver c (due start subs)"
      define c3 where "c3 = fst (snd (run_unit h (c1\<lparr>requestQueue := qs @ due start subs\<rparr>) q))"
      define elapsed where "elapsed = snd (snd (run_unit h (c1\<lparr>requestQueue := qs @ due start subs\<rparr>) q))"
      define finish where "finish = start + elapsed"
      define c4 where "c4 = deliver c3 (due finish (later start subs))"
      define c5 where "c5 = c4\<lparr>lastRequestTime := finish,
                            dispatched := dispatched c4 @ [(req_id q, start, finish)]\<rparr>"
      have ne: "requestQueue c \<noteq> []" using Cons by simp
      have c1_eq: "c1 = c\<lparr>requestQueue := q # qs @ due start subs\<rparr>"
        using deliver_busy [OF busy] Cons by (simp add: c1_def)
      have q1: "requestQueue c1 = q # (qs @ due start subs)" by (simp add: c1_eq)
      have ru: "run_unit h (c1\<lparr>requestQueue := qs @ due start subs\<rparr>) q = (Normal, c3, elapsed)"
        by (simp add: c3_def elapsed_def run_unit_eq)
      have c3_eq: "c3 = c\<lparr>requestQueue := qs @ due start subs,
             fetched := fetched c @ map req_id (filter (\<lambda>r. fetch_called (executeRequest h r)) [q]),
             settled := settled c @ [(req_id q, outcome (executeRequest h q))]\<rparr>"
        by (simp add: c3_def run_unit_eq c1_eq)
      have busy3: "isProcessing c3" using busy by (simp add: c3_eq)
      have c4_eq: "c4 = c3\<lparr>requestQueue := qs @ due start subs @ due finish (later start subs)\<rparr>"
        using deliver_busy [OF busy3] by (simp add: c4_def c3_eq)
      have busy5: "isProcessing c5" using busy by (simp add: c5_def c4_eq c3_eq)
      have r: "run h now c subs = run h finish c5 (later finish (later start subs))"
        using busy ne q1 ru
        by (subst run.simps)
           (simp add: Let_def start_def [symmetric] c1_def [symmetric] finish_def [symmetric]
              c4_def [symmetric] c5_def [symmetric])
      have "\<exists>ds. snd (run h finish c5 (later finish (later start subs))) =
                  final_state h c5 (requestQueue c5 @ map snd (later finish (later start subs))) ds \<and>
                map fst ds = map req_id (requestQueue c5 @ map snd (later finish (later start subs))) \<and>
                spaced (lastRequestTime c5) ds"
        using "1.IH"(3) [OF busy ne start_def c1_def q1 ru [symmetric] refl refl finish_def c4_def c5_def]
          busy5 by simp
      then obtain ds where ds:
        "snd (run h finish c5 (later finish (later start subs))) =
           final_state h c5 (requestQueue c5 @ map snd (later finish (later start subs))) ds"
        "map fst ds = map req_id (requestQueue c5 @ map snd (later finish (later start subs)))"
        "spaced (lastRequestTime c5) ds" by blast
      have rest: "requestQueue c5 @ map snd (later finish (later start subs)) = qs @ map snd subs"
        using due_later [of start subs] due_later [of finish "later start subs"]
        by (simp add: c5_def c4_eq)
      let ?ds = "(req_id q, start, finish) # ds"
      have "final_state h c5 (qs @ map snd subs) ds =
            final_state h c (requestQueue c @ map snd subs) ?ds"
        by (simp add: final_state_def c5_def c4_eq c3_eq Cons)
      with ds(1) r rest
      have "snd (run h now c subs) = final_state h c (requestQueue c @ map snd subs) ?ds"
        by (simp only:)
      moreover have "map fst ?ds = map req_id (requestQueue c @ map snd subs)"
        using ds(2) unfolding rest by (simp add: Cons)
      moreover have "spaced (lastRequestTime c) ?ds"
        using ds(3) dispatch_time_spaced [of c h now]
        by (simp add: c5_def start_def finish_def)
      ultimately show ?thesis by blast
    qed
  qed
qed


lemma run_new_client:
  "\<exists>ds. snd (run h now new_GroqAPIClient subs) = final_state h new_GroqAPIClient (map snd subs) ds \<and>
         map fst ds = map req_id (map snd subs) \<and> spaced 0 ds"
  using run_result [of new_GroqAPIClient h now subs]
  by (simp add: new_GroqAPIClient_def)

text \<open>
  C4. Whatever the submissions to a new client are, and whatever the network and the
  timers do, the units are dispatched in the order of submission, and every dispatch
  begins at least \<open>RATE_LIMIT_DELAY\<close> (100 ms) after the completion of the one before
  it, so no two units run at the same time. A submission made while the flag is set
  only pushes: it starts no second loop.
\<close>

theorem dispatch_fifo_spaced:
  "map fst (dispatched (snd (run h now new_GroqAPIClient subs))) = map (\<lambda>s. req_id (snd s)) subs \<and>
   spaced 0 (dispatched (snd (run h now new_GroqAPIClient subs))) \<and>
   snd (inference_enter (c\<lparr>isProcessing := True\<rparr>) r) = False \<and>
   fst (inference t (c\<lparr>isProcessing := True\<rparr>) r) = NoLoop"
proof -
  obtain ds where ds:
    "snd (run h now new_GroqAPIClient subs) = final_state h new_GroqAPIClient (map snd subs) ds"
    "map fst ds = map req_id (map snd subs)" "spaced 0 ds"
    using run_new_client [of h now subs] by blast
  have "dispatched (final_state h new_GroqAPIClient (map snd subs) ds) = ds"
    by (simp add: final_state_def new_GroqAPIClient_def)
  with ds(1) have "dispatched (snd (run h now new_GroqAPIClient subs)) = ds"
    by (simp only:)
  with ds(2,3) show ?thesis
    by (simp add: inference_def inference_enter_def processQueue_enter_def comp_def)
qed

text \<open>
  C5. Every submitted unit is dispatched and its promise is settled with the result or
  the error of its own \<open>executeRequest\<close>, whatever the units before it did; at the
  end the queue is empty and the flag is clear. A queued closure catches every error
  of its request, so its call always ends normally and never ends the loop.
\<close>

theorem unit_failure_isolated:
  "settled (snd (run h now new_GroqAPIClient subs)) =
     map (\<lambda>s. (req_id (snd s), outcome (executeRequest h (snd s)))) subs \<and>
   length (dispatched (snd (run h now new_GroqAPIClient subs))) = length subs \<and>
   requestQueue (snd (run h now new_GroqAPIClient subs)) = [] \<and>
   isProcessing (snd (run h now new_GroqAPIClient subs)) = False \<and>
   fst (run_unit h c r) = Normal"
proof -
  obtain ds where ds:
    "snd (run h now new_GroqAPIClient subs) = final_state h new_GroqAPIClient (map snd subs) ds"
    "map fst ds = map req_id (map snd subs)" "spaced 0 ds"
    using run_new_client [of h now subs] by blast
  have "length ds = length subs"
    using arg_cong [OF ds(2), of length] by simp
  then have "settled (final_state h new_GroqAPIClient (map snd subs) ds) =
       map (\<lambda>s. (req_id (snd s), outcome (executeRequest h (snd s)))) subs \<and>
     length (dispatched (final_state h new_GroqAPIClient (map snd subs) ds)) = length subs \<and>
     requestQueue (final_state h new_GroqAPIClient (map snd subs) ds) = [] \<and>
     isProcessing (final_state h new_GroqAPIClient (map snd subs) ds) = False"
    by (simp add: final_state_def new_GroqAPIClient_def comp_def)
  with ds(1) show ?thesis
    by (simp only: run_unit_eq fst_conv simp_thms)
qed

text \<open>
  C3 as the code has it. \<open>inference\<close> checks nothing before it queues: a request with
  a malformed credential is pushed like any other. On a busy client it stays in the
  queue; on an idle client the same call enters the loop, where the request waits for
  the rate-limit timer when one is due and is otherwise shifted and dispatched at
  once. No promise is settled within the call. The credential is checked when the unit
  is dispatched: \<open>executeRequest\<close> fails in its first statement with the credential
  error (key required when the key is blank, invalid format otherwise), before any
  callback and without calling \<open>fetch\<close>, and the closure rejects the promise with it.
\<close>

theorem malformed_key_queued_then_rejected:
  assumes "\<not> startsWith (apiKey r) ''gsk_'' \<or> length (apiKey r) < 40"
  shows
    "(isProcessing c \<longrightarrow>
        inference now c r = (NoLoop, c\<lparr>requestQueue := requestQueue c @ [r]\<rparr>)) \<and>
     (\<not> isProcessing c \<and> requestQueue c = [] \<longrightarrow>
        inference now c r =
          (if int now - int (lastRequestTime c) < int RATE_LIMIT_DELAY
           then (AtTimer (nat (int RATE_LIMIT_DELAY - (int now - int (lastRequestTime c)))),
                 c\<lparr>requestQueue := [r], isProcessing := True\<rparr>)
           else (InUnit r, c\<lparr>requestQueue := [], isProcessing := True\<rparr>))) \<and>
     settled (snd (inference now c r)) = settled c \<and>
     executeRequest_begin r =
       (Some (if js_trim (apiKey r) = [] then KeyRequired else InvalidKeyFormat), [], False) \<and>
     executeRequest h r =
       \<lparr>outcome = Inl (if js_trim (apiKey r) = [] then KeyRequired else InvalidKeyFormat),
        callbacks = [], fetch_called = False\<rparr> \<and>
     run_unit h c r =
       (Normal,
        c\<lparr>settled := settled c @
             [(req_id r, Inl (if js_trim (apiKey r) = [] then KeyRequired else InvalidKeyFormat))]\<rparr>,
        0)"
proof -
  have e: "executeRequest h r =
           \<lparr>outcome = Inl (if js_trim (apiKey r) = [] then KeyRequired else InvalidKeyFormat),
            callbacks = [], fetch_called = False\<rparr>"
    using assms by (auto simp: executeRequest_def validateApiKey_def)
  have b: "executeRequest_begin r =
       (Some (if js_trim (apiKey r) = [] then KeyRequired else InvalidKeyFormat), [], False)"
    using assms by (auto simp: executeRequest_begin_def validateApiKey_def)
  have busy: "inference now c r = (NoLoop, c\<lparr>requestQueue := requestQueue c @ [r]\<rparr>)"
    if "isProcessing c"
    using that by (simp add: inference_def inference_enter_def processQueue_enter_def)
  have idle: "inference now c r =
          (if int now - int (lastRequestTime c) < int RATE_LIMIT_DELAY
           then (AtTimer (nat (int RATE_LIMIT_DELAY - (int now - int (lastRequestTime c)))),
                 c\<lparr>requestQueue := [r], isProcessing := True\<rparr>)
           else (InUnit r, c\<lparr>requestQueue := [], isProcessing := True\<rparr>))"
    if "\<not> isProcessing c \<and> requestQueue c = []"
    using that
    by (simp add: inference_def inference_enter_def processQueue_enter_def
        processQueue_begin_def Let_def b)
  have s: "settled (snd (inference now c r)) = settled c"
    by (simp add: inference_def inference_enter_def processQueue_enter_def
        processQueue_begin_def Let_def split: list.splits)
  from e b busy idle s show ?thesis by (simp add: run_unit_def)
qed

theorem malformed_key_queued_then_rejected_witness:
  "startsWith (apiKey (demo_request 2 ''sk-wrong'')) ''gsk_'' = False \<and>
   isProcessing (new_GroqAPIClient\<lparr>isProcessing := True\<rparr>) = True \<and>
   isProcessing new_GroqAPIClient = False \<and>
   requestQueue new_GroqAPIClient = [] \<and>
   inference 1001 (new_GroqAPIClient\<lparr>isProcessing := True\<rparr>) (demo_request 2 ''sk-wrong'') =
     (NoLoop, new_GroqAPIClient\<lparr>isProcessing := True,
                requestQueue := [demo_request 2 ''sk-wrong'']\<rparr>) \<and>
   inference 1000 new_GroqAPIClient (demo_request 2 ''sk-wrong'') =
     (InUnit (demo_request 2 ''sk-wrong''), new_GroqAPIClient\<lparr>isProcessing := True\<rparr>) \<and>
   inference 40 new_GroqAPIClient (demo_request 2 ''sk-wrong'') =
     (AtTimer 60, new_GroqAPIClient\<lparr>requestQueue := [demo_request 2 ''sk-wrong''],
                    isProcessing := True\<rparr>) \<and>
   executeRequest_begin (demo_request 2 ''sk-wrong'') = (Some InvalidKeyFormat, [], False) \<and>
   outcome (executeRequest demo_host (demo_request 2 ''sk-wrong'')) = Inl InvalidKeyFormat \<and>
   fetch_called (executeRequest demo_host (demo_request 2 ''sk-wrong'')) = False"
proof -
  let ?bad = "demo_request 2 ''sk-wrong''"
  have h: "\<not> startsWith (apiKey ?bad) ''gsk_'' \<or> length (apiKey ?bad) < 40"
    by (simp add: demo_request_def startsWith_def)
  have t: "js_trim (apiKey ?bad) \<noteq> []"
    by (simp add: demo_request_def js_trim_def is_js_space_def)
  have k: "startsWith (apiKey ?bad) ''gsk_'' = False"
    by (simp add: demo_request_def startsWith_def)
  have n: "isProcessing new_GroqAPIClient = False" "requestQueue new_GroqAPIClient = []"
    "lastRequestTime new_GroqAPIClient = 0"
    by (simp_all add: new_GroqAPIClient_def)
  have busy: "inference 1001 (new_GroqAPIClient\<lparr>isProcessing := True\<rparr>) ?bad =
     (NoLoop, new_GroqAPIClient\<lparr>isProcessing := True, requestQueue := [?bad]\<rparr>)"
    using malformed_key_queued_then_rejected
            [OF h, of "new_GroqAPIClient\<lparr>isProcessing := True\<rparr>" 1001 demo_host]
    by (simp add: n)
  have now: "inference 1000 new_GroqAPIClient ?bad =
     (InUnit ?bad, new_GroqAPIClient\<lparr>isProcessing := True\<rparr>)"
    using malformed_key_queued_then_rejected [OF h, of new_GroqAPIClient 1000 demo_host]
    by (simp add: n RATE_LIMIT_DELAY_def)
  have wait: "inference 40 new_GroqAPIClient ?bad =
     (AtTimer 60, new_GroqAPIClient\<lparr>requestQueue := [?bad], isProcessing := True\<rparr>)"
    using malformed_key_queued_then_rejected [OF h, of new_GroqAPIClient 40 demo_host]
    by (simp add: n RATE_LIMIT_DELAY_def)
  have x: "executeRequest_begin ?bad = (Some InvalidKeyFormat, [], False) \<and>
     outcome (executeRequest demo_host ?bad) = Inl InvalidKeyFormat \<and>
     fetch_called (executeRequest demo_host ?bad) = False"
    using malformed_key_queued_then_rejected [OF h, of new_GroqAPIClient 1000 demo_host] t
    by simp
  from k n busy now wait x show ?thesis by simp
qed

text \<open>
  C3 as the spec states it fails. Submitted while a request is in flight, the request
  with the malformed credential sits in the queue with its promise pending. In the run
  of three submissions it is dispatched as the second unit, 100 ms after the first has
  completed, and the third has to wait another 100 ms after it.
\<close>

theorem malformed_key_takes_queue_slot:
  "\<not> startsWith (apiKey (demo_request 2 ''sk-wrong'')) ''gsk_'' \<and>
   summary (snd (inference 1001 (new_GroqAPIClient\<lparr>isProcessing := True\<rparr>)
                   (demo_request 2 ''sk-wrong''))) = ([2], True, [], [], []) \<and>
   summary (snd (run demo_host 1000 new_GroqAPIClient demo_submissions)) =
     ([], False, [1, 3],
      [(1, Inr []), (2, Inl InvalidKeyFormat), (3, Inr [])],
      [(1, 1000, 6000), (2, 6100, 6100), (3, 6200, 11200)])"
proof -
  have a: "\<not> startsWith (apiKey (demo_request 2 ''sk-wrong'')) ''gsk_''"
    by code_simp
  have i: "req_id (demo_request i k) = i" for i k
    by (simp add: demo_request_def)
  have b: "summary (snd (inference 1001 (new_GroqAPIClient\<lparr>isProcessing := True\<rparr>)
                   (demo_request 2 ''sk-wrong''))) = ([2], True, [], [], [])"
    by (simp add: inference_def inference_enter_def processQueue_enter_def summary_def
        new_GroqAPIClient_def i)
  have e1: "executeRequest demo_host (demo_request i good_key) =
      \<lparr>outcome = Inr [], callbacks = [], fetch_called = True\<rparr>" for i
    by (simp add: executeRequest_def validateApiKey_def demo_request_def good_key_def
        js_trim_def is_js_space_def startsWith_def status_call_def status_log_def
        makeRequest_def demo_host_def demo_response_def processStreamResponse_def
        decoder0_def chunk_lines_def NL_def frame_DONE_def handle_line_def)
  have e2: "executeRequest demo_host (demo_request i ''sk-wrong'') =
      \<lparr>outcome = Inl InvalidKeyFormat, callbacks = [], fetch_called = False\<rparr>" for i
    by (simp add: executeRequest_def validateApiKey_def demo_request_def
        js_trim_def is_js_space_def startsWith_def)
  have h: "latency demo_host = five_seconds" "timer_late demo_host = on_time"
    by (simp_all add: demo_host_def)
  have c: "summary (snd (run demo_host 1000 new_GroqAPIClient demo_submissions)) =
     ([], False, [1, 3],
      [(1, Inr []), (2, Inl InvalidKeyFormat), (3, Inr [])],
      [(1, 1000, 6000), (2, 6100, 6100), (3, 6200, 11200)])"
    by (simp add: run.simps demo_submissions_def summary_def new_GroqAPIClient_def
        inference_enter_def processQueue_enter_def dispatch_time_def RATE_LIMIT_DELAY_def
        deliver_def due_def later_def run_unit_def e1 e2 i h five_seconds_def on_time_def
        Let_def)
  from a b c show ?thesis by simp
qed


section \<open>Properties of running a task\<close>



end
